(* ===== verification/Go_Prelude.thy ===== *)
theory Go_Prelude
  imports Main "HOL-Library.Word" "HOL-Library.Sublist"
begin

text \<open>
  Shared vocabulary of the development: Go's integer types, the slice idioms the gateway
  uses, and the generic list facts on which the component proofs rest.

  \<^item> \<^verbatim>\<open>byte\<close>, \<^verbatim>\<open>uint32\<close> and \<^verbatim>\<open>uint64\<close> are words, so their arithmetic wraps as in Go.
  \<^item> \<^verbatim>\<open>int\<close> (and \<^verbatim>\<open>time.Duration\<close>) is a HOL integer; where the code computes with values
    that can leave the 64-bit range the result goes through \<open>wrap_int\<close>, two's complement
    wrap-around written out.
  \<^item> A slice is a list. A nil slice and an empty one have the same length and the same
    elements, and the code only ever asks for these, so both are \<open>[]\<close>.
\<close>

unbundle bit_operations_syntax

type_synonym byte = "8 word"
type_synonym u32 = "32 word"
type_synonym u64 = "64 word"

named_theorems state_defs \<open>definitions of the operations on component states\<close>
named_theorems pool_simps \<open>equations of the whitened pool\<close>
named_theorems collector_simps \<open>equations of the batch collector\<close>

subsection \<open>64-bit integers\<close>

definition max_int64 :: int where
  "max_int64 = 2 ^ 63 - 1"

definition min_int64 :: int where
  "min_int64 = - (2 ^ 63)"

definition in_int64 :: "int \<Rightarrow> bool" where
  "in_int64 x \<longleftrightarrow> min_int64 \<le> x \<and> x \<le> max_int64"

definition wrap_int :: "int \<Rightarrow> int" where
  "wrap_int x = (x + 2 ^ 63) mod 2 ^ 64 - 2 ^ 63"

lemma wrap_int_range: "in_int64 (wrap_int x)"
proof -
  have "0 \<le> (x + 2 ^ 63) mod 2 ^ 64" and "(x + 2 ^ 63) mod 2 ^ 64 < 2 ^ 64"
    by simp_all
  then show ?thesis
    by (simp add: in_int64_def wrap_int_def min_int64_def max_int64_def)
qed

lemma wrap_int_id [simp]: "in_int64 x \<Longrightarrow> wrap_int x = x"
  by (simp add: in_int64_def wrap_int_def min_int64_def max_int64_def)

text \<open>
  Go's integer division and remainder truncate towards zero.
\<close>

definition go_div :: "int \<Rightarrow> int \<Rightarrow> int" where
  "go_div a b = sgn a * sgn b * (\<bar>a\<bar> div \<bar>b\<bar>)"

definition go_mod :: "int \<Rightarrow> int \<Rightarrow> int" where
  "go_mod a b = a - b * go_div a b"

lemma go_div_nonneg: "0 \<le> a \<Longrightarrow> 0 < b \<Longrightarrow> go_div a b = a div b"
  by (cases "a = 0") (simp_all add: go_div_def)

lemma go_mod_nonneg: "0 \<le> a \<Longrightarrow> 0 < b \<Longrightarrow> go_mod a b = a mod b"
  by (simp add: go_mod_def go_div_nonneg minus_mult_div_eq_mod)

subsection \<open>Trimming a slice to its newest elements\<close>

text \<open>
  The pool drops the oldest elements of a slice that has grown past a bound with
  \<^verbatim>\<open>trim := len(s) - max; copy(s, s[trim:]); s = s[:len(s)-trim]\<close>.
\<close>

definition keep_newest :: "int \<Rightarrow> 'a list \<Rightarrow> 'a list" where
  "keep_newest mx xs =
     (if int (length xs) > mx then drop (nat (int (length xs) - mx)) xs else xs)"

lemma length_keep_newest:
  "0 \<le> mx \<Longrightarrow> int (length (keep_newest mx xs)) = min mx (int (length xs))"
  by (auto simp: keep_newest_def)

lemma keep_newest_id: "int (length xs) \<le> mx \<Longrightarrow> keep_newest mx xs = xs"
  by (simp add: keep_newest_def)

lemma suffix_keep_newest: "suffix (keep_newest mx xs) xs"
  by (auto simp: keep_newest_def suffix_drop)

lemma keep_newest_drop: "0 \<le> mx \<Longrightarrow> keep_newest mx xs = drop (length xs - nat mx) xs"
proof -
  assume "0 \<le> mx"
  then have "nat (int (length xs) - mx) = length xs - nat mx" by simp
  then show ?thesis by (simp add: keep_newest_def)
qed

lemma keep_newest_append:
  "0 \<le> mx \<Longrightarrow> keep_newest mx (keep_newest mx xs @ ys) = keep_newest mx (xs @ ys)"
  by (cases "length ys \<le> nat mx"; cases "length xs \<le> nat mx")
     (auto simp: keep_newest_drop intro: arg_cong[where f = "\<lambda>n. drop n xs"])

subsection \<open>Runs of equal elements\<close>

fun trailing_run :: "'a list \<Rightarrow> nat" where
  "trailing_run xs =
     (if xs = [] then 0 else length (takeWhile (\<lambda>y. y = last xs) (rev xs)))"

lemma trailing_run_Nil [simp]: "trailing_run [] = 0"
  by simp

declare trailing_run.simps [simp del]

lemma trailing_run_snoc:
  "trailing_run (xs @ [x]) =
     (if xs \<noteq> [] \<and> x = last xs then Suc (trailing_run xs) else 1)"
  by (cases xs rule: rev_cases) (auto simp: trailing_run.simps)

lemma trailing_run_pos: "xs \<noteq> [] \<Longrightarrow> 1 \<le> trailing_run xs"
  by (cases xs rule: rev_cases) (auto simp: trailing_run_snoc)

lemma suffix_replicate_iff:
  assumes "1 \<le> k" and "xs \<noteq> []"
  shows "suffix (replicate k x) xs \<longleftrightarrow> x = last xs \<and> k \<le> trailing_run xs"
  using assms
proof (induction xs arbitrary: k rule: rev_induct)
  case Nil
  then show ?case by simp
next
  case (snoc y ys)
  obtain j where k: "k = Suc j" using snoc.prems(1) by (cases k) auto
  have rep: "replicate k x = replicate j x @ [x]"
    by (simp add: k replicate_append_same)
  have step: "suffix (replicate k x) (ys @ [y]) \<longleftrightarrow> x = y \<and> suffix (replicate j x) ys"
    by (simp add: rep)
  show ?case
  proof (cases "j = 0 \<or> ys = []")
    case True
    then show ?thesis
      using step by (auto simp: k trailing_run_snoc)
  next
    case False
    then have "suffix (replicate j x) ys \<longleftrightarrow> x = last ys \<and> j \<le> trailing_run ys"
      by (intro snoc.IH) auto
    with step False show ?thesis by (auto simp: k trailing_run_snoc)
  qed
qed

lemma sublist_replicate_snoc:
  assumes "1 \<le> k"
  shows "(\<exists>x. sublist (replicate k x) (xs @ [y])) \<longleftrightarrow>
     (\<exists>x. sublist (replicate k x) xs) \<or> k \<le> trailing_run (xs @ [y])"
  using assms suffix_replicate_iff[of k "xs @ [y]"] by (auto simp: sublist_snoc)

subsection \<open>Consecutive windows of a list\<close>

function windows :: "nat \<Rightarrow> 'a list \<Rightarrow> 'a list list" where
  "windows n xs =
     (if n = 0 \<or> length xs < n then [] else take n xs # windows n (drop n xs))"
  by pat_completeness auto
termination
  by (relation "measure (\<lambda>(n, xs). length xs)") auto

declare windows.simps [simp del]

lemma windows_short: "length xs < n \<Longrightarrow> windows n xs = []"
  by (subst windows.simps) simp

lemma windows_append:
  "0 < n \<Longrightarrow> length xs = n \<Longrightarrow> windows n (xs @ ys) = xs # windows n ys"
  by (subst windows.simps) simp

end
