(* ===== verification/Go_Strings.thy ===== *)
theory Go_Strings
  imports Go_Prelude
begin

text \<open>
  The parts of Go's \<^verbatim>\<open>strings\<close> and \<^verbatim>\<open>strconv\<close> packages that the gateway calls. A Go string is a
  byte sequence, so it is a HOL \<open>string\<close> whose characters are the bytes of its UTF-8 form.

  \<^item> \<open>TrimSpace\<close> removes the ASCII white space and the UTF-8 encodings of the other code points
    of \<^verbatim>\<open>unicode.IsSpace\<close>.
  \<^item> \<open>ToLower\<close> maps the ASCII capitals and the two non-ASCII code points whose lower case is an
    ASCII letter (U+0130, U+212A). Other non-ASCII code points are left as they are: the
    gateway compares lowered strings with ASCII constants only, where this makes no difference.
  \<^item> \<open>ParseUint\<close> and \<open>Atoi\<close> are base 10, with the errors of \<^verbatim>\<open>strconv\<close>; \<open>Itoa\<close> prints.
\<close>

subsection \<open>White space\<close>

definition space_runes :: "string list" where
  "space_runes =
     [[CHR 0x20], [CHR 0x09], [CHR 0x0A], [CHR 0x0B], [CHR 0x0C], [CHR 0x0D],
      [CHR 0xC2, CHR 0x85], [CHR 0xC2, CHR 0xA0], [CHR 0xE1, CHR 0x9A, CHR 0x80],
      [CHR 0xE2, CHR 0x80, CHR 0x80], [CHR 0xE2, CHR 0x80, CHR 0x81],
      [CHR 0xE2, CHR 0x80, CHR 0x82], [CHR 0xE2, CHR 0x80, CHR 0x83],
      [CHR 0xE2, CHR 0x80, CHR 0x84], [CHR 0xE2, CHR 0x80, CHR 0x85],
      [CHR 0xE2, CHR 0x80, CHR 0x86], [CHR 0xE2, CHR 0x80, CHR 0x87],
      [CHR 0xE2, CHR 0x80, CHR 0x88], [CHR 0xE2, CHR 0x80, CHR 0x89],
      [CHR 0xE2, CHR 0x80, CHR 0x8A], [CHR 0xE2, CHR 0x80, CHR 0xA8],
      [CHR 0xE2, CHR 0x80, CHR 0xA9], [CHR 0xE2, CHR 0x80, CHR 0xAF],
      [CHR 0xE2, CHR 0x81, CHR 0x9F], [CHR 0xE3, CHR 0x80, CHR 0x80]]"

definition space_prefix :: "string \<Rightarrow> nat" where
  "space_prefix s = (case find (\<lambda>w. prefix w s) space_runes of None \<Rightarrow> 0 | Some w \<Rightarrow> length w)"

definition space_suffix :: "string \<Rightarrow> nat" where
  "space_suffix s = (case find (\<lambda>w. suffix w s) space_runes of None \<Rightarrow> 0 | Some w \<Rightarrow> length w)"

lemma space_prefix_le: "space_prefix s \<le> length s"
  by (auto simp: space_prefix_def find_Some_iff split: option.split dest: prefix_length_le)

lemma space_suffix_le: "space_suffix s \<le> length s"
  by (auto simp: space_suffix_def find_Some_iff split: option.split dest: suffix_length_le)

function trim_left :: "string \<Rightarrow> string" where
  "trim_left s = (let n = space_prefix s in if n = 0 then s else trim_left (drop n s))"
  by pat_completeness auto
termination
proof (relation "measure length")
  fix s :: string and n
  assume n: "n = space_prefix s" "n \<noteq> 0"
  with space_prefix_le[of s] have "s \<noteq> []" by auto
  with n show "(drop n s, s) \<in> measure length" by simp
qed simp

function trim_right :: "string \<Rightarrow> string" where
  "trim_right s =
     (let n = space_suffix s in if n = 0 then s else trim_right (take (length s - n) s))"
  by pat_completeness auto
termination
proof (relation "measure length")
  fix s :: string and n
  assume n: "n = space_suffix s" "n \<noteq> 0"
  with space_suffix_le[of s] have "s \<noteq> []" by auto
  with n show "(take (length s - n) s, s) \<in> measure length" by simp
qed simp

declare trim_left.simps [simp del] trim_right.simps [simp del]

definition TrimSpace :: "string \<Rightarrow> string" where
  "TrimSpace s = trim_right (trim_left s)"

lemma trim_left_suffix: "suffix (trim_left s) s"
proof (induction s rule: trim_left.induct)
  case (1 s)
  show ?case
  proof (cases "space_prefix s = 0")
    case True
    then show ?thesis by (subst trim_left.simps) simp
  next
    case False
    with 1 have "suffix (trim_left (drop (space_prefix s) s)) (drop (space_prefix s) s)" by simp
    then have "suffix (trim_left (drop (space_prefix s) s)) s"
      by (meson suffix_drop suffix_order.trans)
    with False show ?thesis by (subst trim_left.simps) (simp add: Let_def)
  qed
qed

lemma trim_right_prefix: "prefix (trim_right s) s"
proof (induction s rule: trim_right.induct)
  case (1 s)
  show ?case
  proof (cases "space_suffix s = 0")
    case True
    then show ?thesis by (subst trim_right.simps) simp
  next
    case False
    let ?t = "take (length s - space_suffix s) s"
    from False 1 have "prefix (trim_right ?t) ?t" by simp
    then have "prefix (trim_right ?t) s"
      by (meson prefix_order.trans take_is_prefix)
    with False show ?thesis by (subst trim_right.simps) (simp add: Let_def)
  qed
qed

lemma trim_left_done: "space_prefix (trim_left s) = 0"
proof (induction s rule: trim_left.induct)
  case (1 s)
  then show ?case
    by (cases "space_prefix s = 0") (simp_all add: trim_left.simps[of s] Let_def)
qed

lemma trim_right_done: "space_suffix (trim_right s) = 0"
proof (induction s rule: trim_right.induct)
  case (1 s)
  then show ?case
    by (cases "space_suffix s = 0") (simp_all add: trim_right.simps[of s] Let_def)
qed

lemma trim_left_id: "space_prefix s = 0 \<Longrightarrow> trim_left s = s"
  by (subst trim_left.simps) simp

lemma trim_right_id: "space_suffix s = 0 \<Longrightarrow> trim_right s = s"
  by (subst trim_right.simps) simp

lemma space_runes_nonempty: "w \<in> set space_runes \<Longrightarrow> w \<noteq> []"
  by (auto simp: space_runes_def)

lemma space_prefix_0_iff: "space_prefix s = 0 \<longleftrightarrow> (\<forall>w \<in> set space_runes. \<not> prefix w s)"
proof (cases "find (\<lambda>w. prefix w s) space_runes")
  case None
  then have "\<forall>w \<in> set space_runes. \<not> prefix w s" by (auto simp: find_None_iff)
  with None show ?thesis by (simp add: space_prefix_def)
next
  case (Some w)
  then have "w \<in> set space_runes" "prefix w s" by (auto simp: find_Some_iff)
  with Some show ?thesis
    using space_runes_nonempty by (auto simp: space_prefix_def)
qed

text \<open>Trimming what is already trimmed changes nothing.\<close>

lemma TrimSpace_idem: "TrimSpace (TrimSpace s) = TrimSpace s"
proof -
  have "space_prefix (trim_left s) = 0" by (rule trim_left_done)
  then have "space_prefix (TrimSpace s) = 0"
    unfolding TrimSpace_def space_prefix_0_iff
    by (meson prefix_order.trans trim_right_prefix)
  then show ?thesis
    using trim_right_done[of "trim_left s"]
    by (simp add: TrimSpace_def trim_left_id trim_right_id)
qed

lemma TrimSpace_Nil [simp]: "TrimSpace [] = []"
  using space_prefix_le[of "[]"] space_suffix_le[of "[]"]
  by (simp add: TrimSpace_def trim_left_id trim_right_id)

text \<open>A string that begins and ends with plain ASCII characters is not changed.\<close>

definition plain_char :: "char \<Rightarrow> bool" where
  "plain_char c \<longleftrightarrow> 0x20 < (of_char c :: nat) \<and> (of_char c :: nat) < 0x80"

lemma space_runes_ends:
  "list_all (\<lambda>w. \<not> plain_char (hd w) \<and> \<not> plain_char (last w)) space_runes"
  by (simp add: space_runes_def plain_char_def)

lemma TrimSpace_plain:
  assumes "s \<noteq> []" and "plain_char (hd s)" and "plain_char (last s)"
  shows "TrimSpace s = s"
proof -
  have ends: "\<not> plain_char (hd w)" "\<not> plain_char (last w)" "w \<noteq> []"
    if "w \<in> set space_runes" for w
    using that space_runes_ends space_runes_nonempty by (auto simp: list_all_iff)
  have "\<not> prefix w s" if "w \<in> set space_runes" for w
    using ends[OF that] assms by (cases w; cases s) auto
  then have "space_prefix s = 0" by (simp add: space_prefix_0_iff)
  moreover have "\<not> suffix w s" if "w \<in> set space_runes" for w
    using ends[OF that] assms by (cases w rule: rev_cases; cases s rule: rev_cases) auto
  then have "find (\<lambda>w. suffix w s) space_runes = None" by (auto simp: find_None_iff)
  then have "space_suffix s = 0" by (simp add: space_suffix_def)
  ultimately show ?thesis by (simp add: TrimSpace_def trim_left_id trim_right_id)
qed

text \<open>Trimming stops at a plain character at the end, and a digit there stays after lowering.\<close>

lemma space_rune_last: "w \<in> set space_runes \<Longrightarrow> \<not> plain_char (last w)"
  using space_runes_ends by (auto simp: list_all_iff)

lemma space_prefix_in: "space_prefix s \<noteq> 0 \<Longrightarrow> \<exists>w \<in> set space_runes. prefix w s \<and> space_prefix s = length w"
proof (cases "find (\<lambda>w. prefix w s) space_runes")
  case (Some w)
  then have "w \<in> set space_runes" "prefix w s" by (auto simp: find_Some_iff)
  with Some show ?thesis by (intro bexI[of _ w]) (simp_all add: space_prefix_def)
qed (simp add: space_prefix_def)

lemma space_suffix_in: "space_suffix s \<noteq> 0 \<Longrightarrow> \<exists>w \<in> set space_runes. suffix w s \<and> space_suffix s = length w"
proof (cases "find (\<lambda>w. suffix w s) space_runes")
  case (Some w)
  then have "w \<in> set space_runes" "suffix w s" by (auto simp: find_Some_iff)
  with Some show ?thesis by (intro bexI[of _ w]) (simp_all add: space_suffix_def)
qed (simp add: space_suffix_def)

lemma trim_left_last:
  "s \<noteq> [] \<Longrightarrow> plain_char (last s) \<Longrightarrow> trim_left s \<noteq> [] \<and> last (trim_left s) = last s"
proof (induction s rule: trim_left.induct)
  case (1 s)
  show ?case
  proof (cases "space_prefix s = 0")
    case True
    with 1(2) show ?thesis by (simp add: trim_left_id)
  next
    case False
    then obtain w where w: "w \<in> set space_runes" "prefix w s" "space_prefix s = length w"
      using space_prefix_in by blast
    then obtain t where t: "s = w @ t" by (auto simp: prefix_def)
    have "t \<noteq> []" using space_rune_last[OF w(1)] 1(3) t by auto
    with 1 t w False show ?thesis by (subst (1 2) trim_left.simps) (simp add: Let_def)
  qed
qed

lemma TrimSpace_last:
  assumes "s \<noteq> []" and "plain_char (last s)"
  shows "TrimSpace s \<noteq> [] \<and> last (TrimSpace s) = last s"
proof -
  let ?t = "trim_left s"
  have t: "?t \<noteq> []" "last ?t = last s" using trim_left_last[OF assms] by auto
  have "\<not> suffix w ?t" if "w \<in> set space_runes" for w
  proof
    assume "suffix w ?t"
    with space_runes_nonempty[OF that] have "last w = last ?t" by (auto simp: suffix_def)
    with space_rune_last[OF that] t(2) assms(2) show False by simp
  qed
  then have "find (\<lambda>w. suffix w ?t) space_runes = None" by (auto simp: find_None_iff)
  then have "space_suffix ?t = 0" by (simp add: space_suffix_def)
  with t show ?thesis by (simp add: TrimSpace_def trim_right_id)
qed

subsection \<open>Case, prefixes, splitting\<close>

definition lower_char :: "char \<Rightarrow> char" where
  "lower_char c =
     (if 0x41 \<le> (of_char c :: nat) \<and> (of_char c :: nat) \<le> 0x5A then char_of (of_char c + 32 :: nat)
      else c)"

fun ToLower :: "string \<Rightarrow> string" where
  "ToLower [] = []"
| "ToLower (c # cs) =
     (if prefix [CHR 0xC4, CHR 0xB0] (c # cs) then CHR ''i'' # ToLower (drop 1 cs)
      else if prefix [CHR 0xE2, CHR 0x84, CHR 0xAA] (c # cs) then CHR ''k'' # ToLower (drop 2 cs)
      else lower_char c # ToLower cs)"

definition HasPrefix :: "string \<Rightarrow> string \<Rightarrow> bool" where
  "HasPrefix s p = prefix p s"

definition HasSuffix :: "string \<Rightarrow> string \<Rightarrow> bool" where
  "HasSuffix s p = suffix p s"

text \<open>\<^verbatim>\<open>strings.Split(s, sep)\<close> and \<^verbatim>\<open>strings.Join(parts, sep)\<close> for a separator of one byte.\<close>

fun Split :: "char \<Rightarrow> string \<Rightarrow> string list" where
  "Split sep [] = [[]]"
| "Split sep (c # cs) =
     (if c = sep then [] # Split sep cs
      else (case Split sep cs of [] \<Rightarrow> [[c]] | p # ps \<Rightarrow> (c # p) # ps))"

fun Join :: "char \<Rightarrow> string list \<Rightarrow> string" where
  "Join sep [] = []"
| "Join sep [p] = p"
| "Join sep (p # q # ps) = p @ sep # Join sep (q # ps)"

lemma Split_nonempty [simp]: "Split sep s \<noteq> []"
  by (cases s) (auto split: list.splits)

lemma Join_Split: "Join sep (Split sep s) = s"
proof (induction s)
  case (Cons c cs)
  then show ?case
    by (cases "Split sep cs"; cases "tl (Split sep cs)") auto
qed simp

lemma Split_no_sep: "p \<in> set (Split sep s) \<Longrightarrow> sep \<notin> set p"
proof (induction s arbitrary: p)
  case (Cons c cs)
  then show ?case
    by (cases "Split sep cs") (auto split: if_splits)
qed simp

lemma Split_no_occurrence: "sep \<notin> set s \<Longrightarrow> Split sep s = [s]"
  by (induction s) auto

lemma Split_append_sep: "sep \<notin> set p \<Longrightarrow> Split sep (s @ sep # p) = Split sep s @ [p]"
proof (induction s)
  case Nil
  then show ?case by (simp add: Split_no_occurrence)
next
  case (Cons c cs)
  then show ?case by (cases "Split sep cs") auto
qed

subsection \<open>Decimal numbers\<close>

definition is_digit :: "char \<Rightarrow> bool" where
  "is_digit c \<longleftrightarrow> 0x30 \<le> (of_char c :: nat) \<and> (of_char c :: nat) \<le> 0x39"

definition digit_value :: "char \<Rightarrow> nat" where
  "digit_value c = of_char c - 0x30"

definition digit_char :: "nat \<Rightarrow> char" where
  "digit_char d = char_of (d + 0x30)"

datatype num_error = ErrSyntax | ErrRange

text \<open>
  The loop of \<^verbatim>\<open>strconv.ParseUint\<close>: a character that is no digit is a syntax error, a value
  past \<open>maxVal\<close> a range error, whichever comes first.
\<close>

fun parse_uint_loop :: "nat \<Rightarrow> nat \<Rightarrow> string \<Rightarrow> num_error + nat" where
  "parse_uint_loop maxVal n [] = Inr n"
| "parse_uint_loop maxVal n (c # cs) =
     (if \<not> is_digit c then Inl ErrSyntax
      else let n1 = n * 10 + digit_value c
           in if n1 > maxVal then Inl ErrRange else parse_uint_loop maxVal n1 cs)"

definition ParseUint :: "string \<Rightarrow> nat \<Rightarrow> num_error + nat" where
  "ParseUint s bitSize =
     (if s = [] then Inl ErrSyntax else parse_uint_loop (2 ^ bitSize - 1) 0 s)"

definition Atoi :: "string \<Rightarrow> num_error + int" where
  "Atoi s =
     (if s = [] then Inl ErrSyntax
      else let neg = (hd s = CHR ''-'');
               s' = (if hd s = CHR ''+'' \<or> hd s = CHR ''-'' then tl s else s)
           in case ParseUint s' 64 of
                Inl ErrSyntax \<Rightarrow> Inl ErrSyntax
              | Inl ErrRange \<Rightarrow> Inl ErrRange
              | Inr un \<Rightarrow>
                  if \<not> neg \<and> un \<ge> 2 ^ 63 then Inl ErrRange
                  else if neg \<and> un > 2 ^ 63 then Inl ErrRange
                  else Inr (if neg then - int un else int un))"

fun utoa :: "nat \<Rightarrow> string" where
  "utoa n = (if n < 10 then [digit_char n] else utoa (n div 10) @ [digit_char (n mod 10)])"

declare utoa.simps [simp del]

definition Itoa :: "int \<Rightarrow> string" where
  "Itoa i = (if i < 0 then CHR ''-'' # utoa (nat (- i)) else utoa (nat i))"

text \<open>The value a digit string denotes.\<close>

definition decimal :: "string \<Rightarrow> nat" where
  "decimal s = foldl (\<lambda>n c. n * 10 + digit_value c) 0 s"

lemma digit_char_digit: "d < 10 \<Longrightarrow> is_digit (digit_char d)"
  by (simp add: is_digit_def digit_char_def)

lemma digit_value_char [simp]: "d < 10 \<Longrightarrow> digit_value (digit_char d) = d"
  by (simp add: digit_value_def digit_char_def)

lemma foldl_digits_ge: "n \<le> foldl (\<lambda>n c. n * 10 + digit_value c) n s"
proof (induction s arbitrary: n)
  case (Cons c cs)
  have "n \<le> n * 10 + digit_value c" by simp
  also have "\<dots> \<le> foldl (\<lambda>n c. n * 10 + digit_value c) (n * 10 + digit_value c) cs"
    by (rule Cons.IH)
  finally show ?case by simp
qed simp

lemma parse_uint_loop_iff:
  "n \<le> maxVal \<Longrightarrow> parse_uint_loop maxVal n s = Inr v \<longleftrightarrow>
     list_all is_digit s \<and> v = foldl (\<lambda>n c. n * 10 + digit_value c) n s \<and> v \<le> maxVal"
proof (induction s arbitrary: n)
  case Nil
  then show ?case by auto
next
  case (Cons c cs)
  show ?case
  proof (cases "is_digit c \<and> n * 10 + digit_value c \<le> maxVal")
    case True
    then show ?thesis using Cons.IH[of "n * 10 + digit_value c"] by (simp add: Let_def)
  next
    case False
    then show ?thesis
      using foldl_digits_ge[of "n * 10 + digit_value c" cs] by (auto simp: Let_def)
  qed
qed

text \<open>Exactly the non-empty digit strings whose value fits are parsed, to that value.\<close>

lemma ParseUint_iff:
  "ParseUint s bits = Inr v \<longleftrightarrow>
     s \<noteq> [] \<and> list_all is_digit s \<and> v = decimal s \<and> decimal s < 2 ^ bits"
proof -
  have "(v \<le> 2 ^ bits - 1) = (v < 2 ^ bits)" by (cases "(2 :: nat) ^ bits") auto
  then show ?thesis
    by (auto simp: ParseUint_def decimal_def parse_uint_loop_iff)
qed

lemma utoa_digits: "list_all is_digit (utoa n)"
  by (induction n rule: utoa.induct) (subst utoa.simps, simp add: digit_char_digit)

lemma utoa_nonempty [simp]: "utoa n \<noteq> []"
  by (subst utoa.simps) simp

lemma decimal_utoa [simp]: "decimal (utoa n) = n"
proof (induction n rule: utoa.induct)
  case (1 n)
  then show ?case
    by (cases "n < 10") (simp_all add: utoa.simps[of n] decimal_def)
qed

text \<open>Printing and parsing are inverse.\<close>

lemma ParseUint_utoa: "n < 2 ^ bits \<Longrightarrow> ParseUint (utoa n) bits = Inr n"
  by (simp add: ParseUint_iff utoa_digits)

lemma is_digit_plain: "is_digit c \<Longrightarrow> plain_char c"
  by (simp add: is_digit_def plain_char_def)

lemma ToLower_last_digit:
  "s \<noteq> [] \<Longrightarrow> is_digit (last s) \<Longrightarrow> ToLower s \<noteq> [] \<and> last (ToLower s) = last s"
proof (induction s rule: ToLower.induct)
  case (2 c cs)
  show ?case
  proof (cases cs)
    case Nil
    with 2(5) show ?thesis by (auto simp: is_digit_def lower_char_def)
  next
    case (Cons d ds)
    consider (i) "prefix [CHR 0xC4, CHR 0xB0] (c # cs)"
      | (k) "\<not> prefix [CHR 0xC4, CHR 0xB0] (c # cs)" "prefix [CHR 0xE2, CHR 0x84, CHR 0xAA] (c # cs)"
      | (other) "\<not> prefix [CHR 0xC4, CHR 0xB0] (c # cs)" "\<not> prefix [CHR 0xE2, CHR 0x84, CHR 0xAA] (c # cs)"
      by blast
    then show ?thesis
    proof cases
      case i
      with 2(5) Cons have "ds \<noteq> []" by (auto simp: is_digit_def)
      with i 2(1,5) Cons show ?thesis by simp
    next
      case k
      then obtain es where es: "ds = CHR 0xAA # es" using Cons by (auto simp: prefix_def)
      with 2(5) Cons have "es \<noteq> []" by (auto simp: is_digit_def)
      with k 2(2,5) Cons es show ?thesis by simp
    next
      case other
      then have eq: "ToLower (c # cs) = lower_char c # ToLower cs" by auto
      have "ToLower cs \<noteq> []" "last (ToLower cs) = last cs" using 2(3)[OF other] 2(5) Cons by auto
      with Cons show ?thesis unfolding eq by simp
    qed
  qed
qed simp

lemma TrimSpace_digits:
  assumes "s \<noteq> []" and "list_all is_digit s"
  shows "TrimSpace s = s"
  using assms by (intro TrimSpace_plain) (auto simp: list_all_iff intro!: is_digit_plain)

lemma Atoi_Itoa:
  assumes "in_int64 i"
  shows "Atoi (Itoa i) = Inr i"
proof (cases "i < 0")
  case True
  with assms have "nat (- i) \<le> 2 ^ 63" "nat (- i) < 2 ^ 64"
    by (auto simp: in_int64_def min_int64_def)
  with True show ?thesis
    using ParseUint_utoa[of "nat (- i)" 64] by (simp add: Atoi_def Itoa_def)
next
  case False
  with assms have r: "nat i < 2 ^ 63" "nat i < 2 ^ 64"
    by (auto simp: in_int64_def max_int64_def)
  have "is_digit (hd (utoa (nat i)))"
    using utoa_digits[of "nat i"] utoa_nonempty[of "nat i"]
    by (metis hd_in_set list_all_iff)
  then have "hd (utoa (nat i)) \<noteq> CHR ''-''" "hd (utoa (nat i)) \<noteq> CHR ''+''"
    by (auto simp: is_digit_def)
  with False r show ?thesis
    using ParseUint_utoa[of "nat i" 64] by (simp add: Atoi_def Itoa_def)
qed

lemma Atoi_range: "Atoi s = Inr i \<Longrightarrow> in_int64 i"
  by (auto simp: Atoi_def Let_def in_int64_def min_int64_def max_int64_def
      split: if_splits sum.splits num_error.splits)

end
