(* ===== verification/Go_Float.thy ===== *)
theory Go_Float
  imports Go_Prelude Complex_Main "HOL-Library.Log_Nat"
begin

text \<open>
  Go's \<^verbatim>\<open>float64\<close>. A finite float64 is a rational number; every arithmetic operation of the
  source is the exact operation followed by \<open>round64\<close>, rounding to 53 significant bits with
  ties to even (IEEE 754 binary64). The exponent range is not bounded: the gateway's floats
  are ratios of counts, token counts and seconds, far from overflow and from the subnormals.

  The proofs about code that computes with floats rest on the laws of the locale
  \<open>float_rounding\<close> only (monotone, exact on integers of up to 53 bits, relative error at most
  \<open>2 ^ (-53)\<close>), which is interpreted on \<open>round64\<close>.
\<close>

subsection \<open>Rounding to nearest, ties to even\<close>

definition round_even :: "rat \<Rightarrow> int" where
  "round_even y =
     (let f = \<lfloor>y\<rfloor>; d = y - of_int f
      in if d < 1 / 2 \<or> (d = 1 / 2 \<and> even f) then f else f + 1)"

text \<open>\<open>ilog2 x\<close> is the binary exponent of a positive rational: \<open>2 ^ ilog2 x \<le> x < 2 ^ (ilog2 x + 1)\<close>.\<close>

definition ilog2 :: "rat \<Rightarrow> int" where
  "ilog2 x =
     (let (p, q) = quotient_of x; k = bitlen p - bitlen q
      in if 2 powi k \<le> x then k else k - 1)"

definition round64 :: "rat \<Rightarrow> rat" where
  "round64 x =
     (if x = 0 then 0
      else let u = 2 powi (ilog2 \<bar>x\<bar> - 52) in of_int (round_even (x / u)) * u)"

lemma pow2_less_iff [simp]: "(2 :: rat) powi m < 2 powi n \<longleftrightarrow> m < n"
proof
  assume "m < n"
  then show "(2 :: rat) powi m < 2 powi n" by (intro power_int_strict_increasing) auto
next
  assume *: "(2 :: rat) powi m < 2 powi n"
  show "m < n"
  proof (rule ccontr)
    assume "\<not> m < n"
    then have "(2 :: rat) powi n \<le> 2 powi m" by (intro power_int_increasing) auto
    with * show False by simp
  qed
qed

lemma pow2_le_iff [simp]: "(2 :: rat) powi m \<le> 2 powi n \<longleftrightarrow> m \<le> n"
  by (simp flip: not_less)

lemma pow2_add: "(2 :: rat) powi (m + n) = 2 powi m * 2 powi n"
  by (simp add: power_int_add)

lemma round_even_error: "\<bar>of_int (round_even y) - y\<bar> \<le> 1 / 2"
proof -
  define f where "f = \<lfloor>y\<rfloor>"
  have f: "of_int f \<le> y" "y < of_int f + 1"
    unfolding f_def by linarith+
  show ?thesis
  proof (cases "y - of_int f < 1 / 2 \<or> (y - of_int f = 1 / 2 \<and> even f)")
    case True
    then have "round_even y = f" by (simp add: round_even_def f_def Let_def)
    with True f show ?thesis by (auto simp: abs_le_iff)
  next
    case False
    then have "round_even y = f + 1" by (auto simp: round_even_def f_def Let_def)
    moreover from False have "1 / 2 \<le> y - of_int f" by auto
    ultimately show ?thesis using f by (simp add: abs_le_iff)
  qed
qed

lemma round_even_of_int [simp]: "round_even (of_int n) = n"
  by (simp add: round_even_def)

lemma round_even_mono:
  assumes "x \<le> y"
  shows "round_even x \<le> round_even y"
proof (cases "\<lfloor>x\<rfloor> = \<lfloor>y\<rfloor>")
  case True
  with assms show ?thesis by (auto simp: round_even_def Let_def)
next
  case False
  with floor_mono[OF assms] have "\<lfloor>x\<rfloor> + 1 \<le> \<lfloor>y\<rfloor>" by linarith
  then show ?thesis by (auto simp: round_even_def Let_def)
qed

lemma round_even_minus: "round_even (- y) = - round_even y"
proof (cases "y = of_int \<lfloor>y\<rfloor>")
  case True
  then have "round_even y = \<lfloor>y\<rfloor>"
    by (metis round_even_of_int)
  moreover have "round_even (- y) = - \<lfloor>y\<rfloor>"
    using True round_even_of_int[of "- \<lfloor>y\<rfloor>"] by simp
  ultimately show ?thesis by simp
next
  case False
  have "of_int \<lfloor>y\<rfloor> < y" and "y < of_int \<lfloor>y\<rfloor> + 1"
    using False by linarith+
  then have fl: "\<lfloor>- y\<rfloor> = - \<lfloor>y\<rfloor> - 1"
    by (intro floor_unique) auto
  show ?thesis
    by (auto simp: round_even_def Let_def fl)
qed

lemma ilog2_bounds:
  assumes "0 < x"
  shows "2 powi ilog2 x \<le> x \<and> x < 2 powi (ilog2 x + 1)"
proof -
  obtain p q where pq: "quotient_of x = (p, q)" by fastforce
  have q: "0 < q" using quotient_of_denom_pos[OF pq] .
  have x: "x = of_int p / of_int q" using quotient_of_div[OF pq] .
  have p: "0 < p" using assms q by (simp add: x zero_less_divide_iff)
  define a where "a = nat (bitlen p - 1)"
  define b where "b = nat (bitlen q - 1)"
  have bl: "bitlen p = int a + 1" "bitlen q = int b + 1"
    using p q by (simp_all add: a_def b_def bitlen_alt_def)
  have pb: "2 ^ a \<le> p" "p < 2 ^ (a + 1)" and qb: "2 ^ b \<le> q" "q < 2 ^ (b + 1)"
    using bitlen_bounds[OF p] bitlen_bounds[OF q] by (simp_all add: bl nat_add_distrib)
  have "of_int (2 ^ a) \<le> (of_int p :: rat)" "(of_int p :: rat) < of_int (2 ^ (a + 1))"
    using pb by (simp_all only: of_int_le_iff of_int_less_iff)
  then have P: "2 ^ a \<le> (of_int p :: rat)" "(of_int p :: rat) < 2 * 2 ^ a"
    by simp_all
  have "of_int (2 ^ b) \<le> (of_int q :: rat)" "(of_int q :: rat) < of_int (2 ^ (b + 1))"
    using qb by (simp_all only: of_int_le_iff of_int_less_iff)
  then have Q: "2 ^ b \<le> (of_int q :: rat)" "(of_int q :: rat) < 2 * 2 ^ b"
    by simp_all
  define k where "k = bitlen p - bitlen q"
  have k: "(2 :: rat) powi k = 2 ^ a / 2 ^ b"
    by (simp add: k_def bl power_int_diff)
  have "2 ^ a / (2 * 2 ^ b) < x"
    unfolding x using P Q q by (intro frac_less2) auto
  moreover have "x < 2 * 2 ^ a / 2 ^ b"
    unfolding x using P Q q p by (intro frac_less) auto
  ultimately have x2: "2 powi (k - 1) < x" "x < 2 powi (k + 1)"
    by (simp_all add: power_int_diff pow2_add[of k 1] k mult.commute)
  show ?thesis
  proof (cases "2 powi k \<le> x")
    case True
    then have "ilog2 x = k" by (simp add: ilog2_def pq k_def Let_def)
    with True x2 show ?thesis by simp
  next
    case False
    then have "ilog2 x = k - 1" by (simp add: ilog2_def pq k_def Let_def)
    with False x2 show ?thesis by simp
  qed
qed

lemma ilog2_unique:
  assumes "2 powi k \<le> x" and "x < 2 powi (k + 1)"
  shows "ilog2 x = k"
proof -
  have "0 < x"
    using assms(1) by (rule less_le_trans[rotated]) simp
  note b = ilog2_bounds[OF this]
  have "(2 :: rat) powi ilog2 x < 2 powi (k + 1)"
    using b assms(2) by (blast intro: le_less_trans)
  moreover have "(2 :: rat) powi k < 2 powi (ilog2 x + 1)"
    using b assms(1) by (blast intro: le_less_trans)
  ultimately show ?thesis unfolding pow2_less_iff by linarith
qed

subsection \<open>Properties of the rounding\<close>

lemma round64_0 [simp]: "round64 0 = 0"
  by (simp add: round64_def)

lemma round64_minus: "round64 (- x) = - round64 x"
  by (simp add: round64_def Let_def round_even_minus)

text \<open>A value with at most 53 significant bits is not changed.\<close>

lemma round64_eqI:
  assumes "x = of_int n * 2 powi (ilog2 \<bar>x\<bar> - 52)"
  shows "round64 x = x"
proof -
  define u :: rat where "u = 2 powi (ilog2 \<bar>x\<bar> - 52)"
  have u: "u \<noteq> 0" by (simp add: u_def)
  have x: "x = of_int n * u" using assms by (simp add: u_def)
  then have "x / u = of_int n" using u by simp
  then show ?thesis
    by (simp add: round64_def Let_def u_def[symmetric]) (simp add: x[symmetric])
qed

lemma round64_exact:
  assumes "\<bar>m\<bar> \<le> 2 ^ 53"
  shows "round64 (of_int m * 2 powi e) = of_int m * 2 powi e"
proof (cases "m = 0")
  case True
  then show ?thesis by simp
next
  case False
  define x :: rat where "x = of_int m * 2 powi e"
  have x: "0 < \<bar>x\<bar>" using False by (simp add: x_def)
  have ax: "\<bar>x\<bar> = of_int \<bar>m\<bar> * 2 powi e" by (simp add: x_def abs_mult)
  have m53: "of_int \<bar>m\<bar> \<le> (2 :: rat) powi 53"
  proof -
    have "of_int \<bar>m\<bar> \<le> (of_int (2 ^ 53) :: rat)"
      using assms by (simp only: of_int_le_iff)
    then show ?thesis by simp
  qed
  have "2 powi ilog2 \<bar>x\<bar> \<le> \<bar>x\<bar>"
    using ilog2_bounds[OF x] by simp
  also have "\<bar>x\<bar> \<le> 2 powi 53 * 2 powi e"
    unfolding ax using m53 by (intro mult_right_mono) simp_all
  also have "\<dots> = 2 powi (53 + e)"
    by (rule pow2_add[symmetric])
  finally have le: "ilog2 \<bar>x\<bar> \<le> 53 + e" by simp
  have "\<exists>n. x = of_int n * 2 powi (ilog2 \<bar>x\<bar> - 52)"
  proof (cases "ilog2 \<bar>x\<bar> - 52 \<le> e")
    case True
    define d where "d = nat (e - (ilog2 \<bar>x\<bar> - 52))"
    have "e = int d + (ilog2 \<bar>x\<bar> - 52)" using True by (simp add: d_def)
    then have "(2 :: rat) powi e = 2 ^ d * 2 powi (ilog2 \<bar>x\<bar> - 52)"
      by (metis pow2_add power_int_of_nat)
    then have "x = of_int (m * 2 ^ d) * 2 powi (ilog2 \<bar>x\<bar> - 52)"
      unfolding x_def by (simp only: of_int_mult of_int_power of_int_numeral mult.assoc)
    then show ?thesis by blast
  next
    case False
    with le have eq: "ilog2 \<bar>x\<bar> = 53 + e" by simp
    then have "(2 :: rat) powi 53 * 2 powi e \<le> of_int \<bar>m\<bar> * 2 powi e"
      using ilog2_bounds[OF x] by (simp only: ax pow2_add)
    then have "(2 :: rat) powi 53 \<le> of_int \<bar>m\<bar>"
      by (rule mult_right_le_imp_le) simp
    with m53 have "of_int \<bar>m\<bar> = (2 :: rat) powi 53" by (rule antisym)
    then have m: "\<bar>x\<bar> = 2 powi (53 + e)" by (simp only: ax pow2_add)
    have "(2 :: rat) powi (52 + (1 + e)) = of_int (2 ^ 52) * 2 powi (1 + e)"
      unfolding pow2_add[of 52] by simp
    moreover have "\<bar>x\<bar> = 2 powi (52 + (1 + e))" unfolding m by simp
    moreover have "ilog2 \<bar>x\<bar> - 52 = 1 + e" using eq by simp
    ultimately have "\<bar>x\<bar> = of_int (2 ^ 52) * 2 powi (ilog2 \<bar>x\<bar> - 52)"
      by (simp only:)
    then have "x = of_int (2 ^ 52) * 2 powi (ilog2 \<bar>x\<bar> - 52) \<or>
        x = of_int (- (2 ^ 52)) * 2 powi (ilog2 \<bar>x\<bar> - 52)"
      by (simp only: abs_if of_int_minus) (auto split: if_splits)
    then show ?thesis by blast
  qed
  then show ?thesis
    using round64_eqI unfolding x_def[symmetric] by blast
qed

lemma round64_of_int: "\<bar>n\<bar> \<le> 2 ^ 53 \<Longrightarrow> round64 (of_int n) = of_int n"
  using round64_exact[of n 0] by simp

lemma round64_error: "\<bar>round64 x - x\<bar> \<le> \<bar>x\<bar> / 2 ^ 53"
proof (cases "x = 0")
  case True
  then show ?thesis by simp
next
  case False
  define u :: rat where "u = 2 powi (ilog2 \<bar>x\<bar> - 52)"
  have u: "0 < u" by (simp add: u_def)
  have "2 powi ilog2 \<bar>x\<bar> \<le> \<bar>x\<bar>"
    using ilog2_bounds[of "\<bar>x\<bar>"] False by simp
  then have ux: "u * 2 ^ 52 \<le> \<bar>x\<bar>"
    by (simp add: u_def power_int_diff)
  have "round64 x - x = (of_int (round_even (x / u)) - x / u) * u"
    using False u by (simp add: round64_def u_def[symmetric] Let_def field_simps)
  then have "\<bar>round64 x - x\<bar> = \<bar>of_int (round_even (x / u)) - x / u\<bar> * u"
    using u by (simp add: abs_mult)
  also have "\<dots> \<le> 1 / 2 * u"
    using u round_even_error[of "x / u"] by (intro mult_right_mono) auto
  also have "\<dots> \<le> \<bar>x\<bar> / 2 ^ 53"
    using ux by simp
  finally show ?thesis .
qed

lemma round64_powi: "round64 (2 powi e) = 2 powi e"
  using round64_exact[of 1 e] by simp

lemma round64_mono_same:
  assumes "0 < x" "x \<le> y" "ilog2 x = ilog2 y"
  shows "round64 x \<le> round64 y"
proof -
  define u :: rat where "u = 2 powi (ilog2 y - 52)"
  have u: "0 < u" by (simp add: u_def)
  have "x / u \<le> y / u" using assms(2) u by (simp add: divide_right_mono)
  from round_even_mono[OF this] u assms show ?thesis
    by (simp add: round64_def Let_def u_def)
qed

text \<open>Rounding stays between the powers of two around a value.\<close>

lemma round64_binade:
  assumes "0 < x"
  shows "2 powi ilog2 x \<le> round64 x \<and> round64 x \<le> 2 powi (ilog2 x + 1)"
proof -
  define k where "k = ilog2 x - 52"
  define u :: rat where "u = 2 powi k"
  have u: "0 < u" by (simp add: u_def)
  have lo: "2 powi ilog2 x = of_int (2 ^ 52) * u"
    using pow2_add[of 52 k] by (simp add: u_def k_def)
  have hi: "2 powi (ilog2 x + 1) = of_int (2 ^ 53) * u"
    using pow2_add[of 53 k] by (simp add: u_def k_def add.commute)
  have "of_int (2 ^ 52) \<le> x / u" and "x / u \<le> of_int (2 ^ 53)"
    using ilog2_bounds[OF assms] u unfolding lo hi
    by (simp_all only: pos_le_divide_eq pos_divide_le_eq less_imp_le)
  from round_even_mono[OF this(1)] round_even_mono[OF this(2)]
  have "2 ^ 52 \<le> round_even (x / u)" and "round_even (x / u) \<le> 2 ^ 53"
    by (simp_all only: round_even_of_int)
  then have "of_int (2 ^ 52) * u \<le> of_int (round_even (x / u)) * u"
    and "of_int (round_even (x / u)) * u \<le> of_int (2 ^ 53) * u"
    using u by (simp_all only: mult_le_cancel_right_pos of_int_le_iff)
  moreover have "round64 x = of_int (round_even (x / u)) * u"
    using assms by (simp add: round64_def Let_def u_def k_def)
  ultimately show ?thesis by (simp only: lo hi)
qed

lemma round64_mono_pos:
  assumes "0 < x" "x \<le> y"
  shows "round64 x \<le> round64 y"
proof (cases "ilog2 x = ilog2 y")
  case True
  with assms show ?thesis by (rule round64_mono_same)
next
  case False
  have "(2 :: rat) powi ilog2 x < 2 powi (ilog2 y + 1)"
    using ilog2_bounds[of x] ilog2_bounds[of y] assms
    by (blast intro: le_less_trans order_trans less_le_trans)
  with False have "ilog2 x + 1 \<le> ilog2 y" by simp
  then have "(2 :: rat) powi (ilog2 x + 1) \<le> 2 powi ilog2 y" by simp
  moreover have "round64 x \<le> 2 powi (ilog2 x + 1)" and "2 powi ilog2 y \<le> round64 y"
    using round64_binade[of x] round64_binade[of y] assms by auto
  ultimately show ?thesis by (blast intro: order_trans)
qed

lemma round64_nonneg: "0 \<le> x \<Longrightarrow> 0 \<le> round64 x"
proof (cases "x = 0")
  case False
  assume "0 \<le> x"
  with False have "2 powi ilog2 x \<le> round64 x" using round64_binade[of x] by simp
  moreover have "0 < (2 :: rat) powi ilog2 x" by simp
  ultimately show ?thesis by linarith
qed simp

lemma round64_mono:
  assumes "x \<le> y"
  shows "round64 x \<le> round64 y"
proof -
  consider "0 < x" | "x \<le> 0" "0 \<le> y" | "y < 0" by linarith
  then show ?thesis
  proof cases
    case 1
    with assms show ?thesis by (intro round64_mono_pos)
  next
    case 2
    then show ?thesis
      using round64_nonneg[of y] round64_nonneg[of "- x"] by (simp add: round64_minus)
  next
    case 3
    with assms have "round64 (- y) \<le> round64 (- x)" by (intro round64_mono_pos) auto
    then show ?thesis by (simp add: round64_minus)
  qed
qed

subsection \<open>The laws of float64 rounding\<close>

locale float_rounding =
  fixes rnd :: "rat \<Rightarrow> rat"
  assumes rnd_mono: "x \<le> y \<Longrightarrow> rnd x \<le> rnd y"
    and rnd_int: "\<bar>n\<bar> \<le> 2 ^ 53 \<Longrightarrow> rnd (of_int n) = of_int n"
    and rnd_error: "\<bar>rnd x - x\<bar> \<le> \<bar>x\<bar> / 2 ^ 53"
begin

lemma rnd_nat: "n \<le> 2 ^ 53 \<Longrightarrow> rnd (of_nat n) = of_nat n"
  using rnd_int[of "int n"] by simp

lemma rnd_zero [simp]: "rnd 0 = 0"
  using rnd_int[of 0] by simp

lemma rnd_one [simp]: "rnd 1 = 1"
  using rnd_int[of 1] by simp

lemma rnd_nonneg: "0 \<le> x \<Longrightarrow> 0 \<le> rnd x"
  using rnd_mono[of 0 x] by simp

lemma rnd_le_one: "x \<le> 1 \<Longrightarrow> rnd x \<le> 1"
  using rnd_mono[of x 1] by simp

lemma rnd_ge_one: "1 \<le> x \<Longrightarrow> 1 \<le> rnd x"
  using rnd_mono[of 1 x] by simp

lemma rnd_le: "0 \<le> x \<Longrightarrow> rnd x \<le> x + x / 2 ^ 53"
  using rnd_error[of x] unfolding abs_le_iff by simp

lemma rnd_ge: "0 \<le> x \<Longrightarrow> x - x / 2 ^ 53 \<le> rnd x"
  using rnd_error[of x] unfolding abs_le_iff by simp

lemma rnd_pos: "0 < x \<Longrightarrow> 0 < rnd x"
  using rnd_ge[of x] by (simp add: less_le_trans)

text \<open>
  Two values that are far enough apart keep their strict order. A comparison of a rounded
  ratio with a rounded constant therefore decides the comparison of the exact values, as long
  as the ratio's denominator is small against \<open>2 ^ 53\<close>.
\<close>

lemma rnd_less:
  assumes "0 \<le> x" and "x + (x + y) / 2 ^ 53 < y"
  shows "rnd x < rnd y"
proof -
  have "0 \<le> y"
  proof (rule ccontr)
    assume "\<not> 0 \<le> y"
    with assms show False by (simp add: field_simps)
  qed
  have "rnd x \<le> x + x / 2 ^ 53" using assms(1) by (rule rnd_le)
  also have "\<dots> < y - y / 2 ^ 53" using assms(2) by (simp add: field_simps)
  also have "\<dots> \<le> rnd y" using \<open>0 \<le> y\<close> by (rule rnd_ge)
  finally show ?thesis .
qed

lemma gap_order:
  fixes a p g :: rat
  assumes "1 / (2 ^ 44 * 100) \<le> g" and "a \<le> 1" and "a + g \<le> p" and "p \<le> 1"
  shows "a + (a + p) / 2 ^ 53 < p"
proof -
  have "(a + p) / 2 ^ 53 \<le> 2 / 2 ^ 53" using assms by (intro divide_right_mono) simp_all
  also have "\<dots> < 1 / (2 ^ 44 * 100 :: rat)" by simp
  finally show ?thesis using assms by linarith
qed

lemma rnd_ratio_ge_iff:
  fixes a b :: nat and p q :: nat
  assumes q: "0 < q" "q \<le> 100" and b: "0 < b" "b \<le> 2 ^ 44" and pq: "p \<le> q"
  shows "rnd (of_nat p / of_nat q) \<le> rnd (of_nat a / of_nat b) \<longleftrightarrow> p * b \<le> a * q"
proof
  assume "p * b \<le> a * q"
  then have "(of_nat (p * b) :: rat) \<le> of_nat (a * q)"
    by (simp only: of_nat_le_iff)
  then have "of_nat p / of_nat q \<le> (of_nat a / of_nat b :: rat)"
    using q b by (simp add: field_simps)
  then show "rnd (of_nat p / of_nat q) \<le> rnd (of_nat a / of_nat b)" by (rule rnd_mono)
next
  assume le: "rnd (of_nat p / of_nat q) \<le> rnd (of_nat a / of_nat b)"
  show "p * b \<le> a * q"
  proof (rule ccontr)
    assume "\<not> p * b \<le> a * q"
    then have "a * q + 1 \<le> p * b" by simp
    then have "(of_nat (a * q + 1) :: rat) \<le> of_nat (p * b)"
      by (simp only: of_nat_le_iff)
    then have "(of_nat a * of_nat q + 1) / (of_nat b * of_nat q) \<le>
        (of_nat p * of_nat b / (of_nat b * of_nat q) :: rat)"
      by (intro divide_right_mono) simp_all
    then have gap: "of_nat a / of_nat b + 1 / (of_nat b * of_nat q) \<le> (of_nat p / of_nat q :: rat)"
      using q b by (simp add: add_divide_distrib)
    have one: "(of_nat p / of_nat q :: rat) \<le> 1"
      using pq q by (simp add: field_simps)
    have "(of_nat b :: rat) \<le> of_nat (2 ^ 44)" and "(of_nat q :: rat) \<le> of_nat 100"
      using q b by (simp_all only: of_nat_le_iff)
    then have "(of_nat b * of_nat q :: rat) \<le> 2 ^ 44 * 100"
      by (intro mult_mono) simp_all
    then have "1 / (2 ^ 44 * 100) \<le> 1 / (of_nat b * of_nat q :: rat)"
      using q b by (intro divide_left_mono) simp_all
    moreover have "of_nat a / of_nat b \<le> (1 :: rat)"
    proof -
      have "0 \<le> 1 / (of_nat b * of_nat q :: rat)" by simp
      with gap one show ?thesis by linarith
    qed
    ultimately have "of_nat a / of_nat b + (of_nat a / of_nat b + of_nat p / of_nat q) / 2 ^ 53
        < (of_nat p / of_nat q :: rat)"
      using gap one by (intro gap_order)
    then have "rnd (of_nat a / of_nat b) < rnd (of_nat p / of_nat q)"
      by (intro rnd_less) simp_all
    with le show False by simp
  qed
qed

lemma rnd_ratio_le_iff:
  fixes a b p q :: nat
  assumes q: "0 < q" "q \<le> 100" and b: "0 < b" "b \<le> 2 ^ 44" and ab: "a \<le> b"
  shows "rnd (of_nat a / of_nat b) \<le> rnd (of_nat p / of_nat q) \<longleftrightarrow> a * q \<le> p * b"
proof
  assume "a * q \<le> p * b"
  then have "(of_nat (a * q) :: rat) \<le> of_nat (p * b)"
    by (simp only: of_nat_le_iff)
  then have "of_nat a / of_nat b \<le> (of_nat p / of_nat q :: rat)"
    using q b by (simp add: field_simps)
  then show "rnd (of_nat a / of_nat b) \<le> rnd (of_nat p / of_nat q)" by (rule rnd_mono)
next
  assume le: "rnd (of_nat a / of_nat b) \<le> rnd (of_nat p / of_nat q)"
  show "a * q \<le> p * b"
  proof (rule ccontr)
    assume "\<not> a * q \<le> p * b"
    then have lt: "p * b + 1 \<le> a * q" by simp
    then have "(of_nat (p * b + 1) :: rat) \<le> of_nat (a * q)"
      by (simp only: of_nat_le_iff)
    then have "(of_nat p * of_nat b + 1) / (of_nat b * of_nat q) \<le>
        (of_nat a * of_nat q / (of_nat b * of_nat q) :: rat)"
      by (intro divide_right_mono) simp_all
    then have gap: "of_nat p / of_nat q + 1 / (of_nat b * of_nat q) \<le> (of_nat a / of_nat b :: rat)"
      using q b by (simp add: add_divide_distrib)
    have one: "(of_nat a / of_nat b :: rat) \<le> 1"
      using ab b by (simp add: field_simps)
    have "(of_nat b :: rat) \<le> of_nat (2 ^ 44)" and "(of_nat q :: rat) \<le> of_nat 100"
      using q b by (simp_all only: of_nat_le_iff)
    then have "(of_nat b * of_nat q :: rat) \<le> 2 ^ 44 * 100"
      by (intro mult_mono) simp_all
    then have g: "1 / (2 ^ 44 * 100) \<le> 1 / (of_nat b * of_nat q :: rat)"
      using q b by (intro divide_left_mono) simp_all
    have "of_nat p / of_nat q \<le> (1 :: rat)"
    proof -
      have "0 \<le> 1 / (of_nat b * of_nat q :: rat)" by simp
      with gap one show ?thesis by linarith
    qed
    from gap_order[OF g this gap one]
    have "rnd (of_nat p / of_nat q) < rnd (of_nat a / of_nat b)"
      by (intro rnd_less) simp_all
    with le show False by simp
  qed
qed

end

interpretation f64: float_rounding round64
  by unfold_locales (fact round64_mono round64_of_int round64_error)+

subsection \<open>Conversions and durations\<close>

text \<open>
  \<^verbatim>\<open>float64(n)\<close> of an integer, and \<^verbatim>\<open>time.Duration.Seconds\<close> of a number of nanoseconds: whole
  seconds plus the fraction, each converted and divided as the standard library does it.
\<close>

definition float64_of_int :: "int \<Rightarrow> rat" where
  "float64_of_int n = round64 (of_int n)"

definition second :: int where
  "second = 10 ^ 9"

definition Seconds :: "int \<Rightarrow> rat" where
  "Seconds d =
     round64 (float64_of_int (go_div d second) + round64 (float64_of_int (go_mod d second) / 10 ^ 9))"

lemma float64_of_int_exact: "\<bar>n\<bar> \<le> 2 ^ 53 \<Longrightarrow> float64_of_int n = of_int n"
  by (simp add: float64_of_int_def f64.rnd_int)

lemma float64_of_int_nonneg: "0 \<le> n \<Longrightarrow> 0 \<le> float64_of_int n"
  by (simp add: float64_of_int_def f64.rnd_nonneg)

lemma Seconds_nonneg: "0 \<le> d \<Longrightarrow> 0 \<le> Seconds d"
  by (simp add: Seconds_def second_def go_div_nonneg go_mod_nonneg f64.rnd_nonneg
      float64_of_int_nonneg pos_imp_zdiv_nonneg_iff)

end
