(* ===== verification/Metrics.thy ===== *)
theory Metrics
  imports Go_Strings Go_Float
begin

text \<open>
  The Prometheus metrics of \<^verbatim>\<open>internal/metrics/prometheus.go\<close>. The Prometheus client library is not
  part of the repository: what the gateway does with it is the sequence of calls it makes
  (\<open>Inc\<close>, \<open>Add\<close>, \<open>Set\<close>, \<open>Observe\<close>), so a recording function is the list of calls it makes, in
  order, and an operation of another component that records metrics returns that list with its
  result. \<open>initializeMetrics\<close> is the table of metrics the gateway registers (help texts left out).

  The library panics when a call does not fit the metric (wrong number of label values, a
  counter decremented); \<open>op_ok\<close> says that a call fits the table, and every recording function is
  shown to make fitting calls only.
\<close>

subsection \<open>Metric variables and their registration\<close>

datatype metric =
    EventsReceived | EventsProcessed | EventsDropped | EventFormatType
  | EventsPerChannel | ValidationFailures | ValidationFrequencyRatio
  | ValidationRunsCount | BatchesCreated | BatchesSent | BatchesFailed | BatchSize
  | BatchSendDuration | WhiteningInputBytes | WhiteningOutputBytes
  | WhiteningCompressionRatio | EntropyExtractions | EntropyExtractedBytes
  | EntropyPoolSize | GRPCConnected | GRPCReconnects | GRPCStreamErrors
  | MQTTConnected | MQTTReconnects | MQTTConnects | MQTTDisconnects
  | MQTTInboundMessages | CollectorPoolSize | CollectorBatchSize
  | CollectorFlushDuration | ContinuousRCTFailures | ContinuousAPTFailures
  | MinEntropyEstimateMCV | MinEntropyEstimateCollision | ProcessingLatency
  | CloudAcksReceived | CloudNacksReceived | EntropyHTTPRequests
  | EntropyHTTP503Total | EntropyHTTPRateLimited | EntropyHTTPLatency
  | ForwarderMissingSeqTotal | ForwarderBackpressureTotal | ControlApplyTotal
  | SignatureFailTotal | GRPCServerConnectedClients | GRPCServerBatchesSent
  | GRPCServerBatchesDropped | GRPCServerAcksReceived

datatype buckets =
    LinearBuckets rat rat nat
  | ExponentialBuckets rat rat nat
  | Buckets "rat list"

datatype metric_kind =
    Counter
  | CounterVec "string list"
  | Gauge
  | Histogram buckets

type_synonym metric_desc = "metric \<times> string \<times> metric_kind"

definition batch_metrics :: "metric_desc list" where
  "batch_metrics =
     [(EventsReceived, ''tdc_events_received_total'', CounterVec [''channel'']),
      (EventsProcessed, ''tdc_events_processed_total'', Counter),
      (EventsDropped, ''tdc_events_dropped_total'', CounterVec [''reason'']),
      (EventFormatType, ''tdc_event_format_type_total'', CounterVec [''format'']),
      (EventsPerChannel, ''tdc_events_per_channel_total'', CounterVec [''channel'']),
      (ValidationFailures, ''validation_failures_total'', CounterVec [''test_type'']),
      (ValidationFrequencyRatio, ''validation_frequency_ratio'', Histogram (LinearBuckets (2 / 5) (1 / 100) 21)),
      (ValidationRunsCount, ''validation_runs_count'', Histogram (ExponentialBuckets 100 (3 / 2) 15)),
      (BatchesCreated, ''batches_created_total'', Counter),
      (BatchesSent, ''batches_sent_total'', Counter),
      (BatchesFailed, ''batches_failed_total'', CounterVec [''reason'']),
      (BatchSize, ''batch_size_events'', Histogram (LinearBuckets 100 100 20)),
      (BatchSendDuration, ''batch_send_duration_seconds'', Histogram (ExponentialBuckets (1 / 1000) 2 15)),
      (WhiteningInputBytes, ''whitening_input_bytes_total'', Counter),
      (WhiteningOutputBytes, ''whitening_output_bytes_total'', Counter),
      (WhiteningCompressionRatio, ''whitening_compression_ratio'', Histogram (LinearBuckets 0 (1 / 20) 21))]"

definition link_metrics :: "metric_desc list" where
  "link_metrics =
     [(EntropyExtractions, ''entropy_extractions_total'', Counter),
      (EntropyExtractedBytes, ''entropy_extracted_bytes_total'', Counter),
      (EntropyPoolSize, ''entropy_pool_size_bytes'', Gauge),
      (GRPCConnected, ''grpc_connection_status'', Gauge),
      (GRPCReconnects, ''forwarder_reconnects_total'', Counter),
      (GRPCStreamErrors, ''grpc_stream_errors_total'', CounterVec [''error_type'']),
      (MQTTConnected, ''mqtt_connection_status'', Gauge),
      (MQTTReconnects, ''mqtt_reconnects_total'', Counter),
      (MQTTConnects, ''mqtt_connects_total'', Counter),
      (MQTTDisconnects, ''mqtt_disconnects_total'', Counter),
      (MQTTInboundMessages, ''mqtt_in_msgs_total'', Counter),
      (CollectorPoolSize, ''collector_pool_size_events'', Gauge),
      (CollectorBatchSize, ''collector_batch_size_events'', Gauge),
      (CollectorFlushDuration, ''collector_flush_duration_seconds'', Histogram (ExponentialBuckets (1 / 10000) 2 15)),
      (ContinuousRCTFailures, ''continuous_rct_failures_total'', Counter),
      (ContinuousAPTFailures, ''continuous_apt_failures_total'', Counter),
      (MinEntropyEstimateMCV, ''min_entropy_estimate_mcv_bits_per_byte'', Histogram (LinearBuckets 0 (1 / 2) 17)),
      (MinEntropyEstimateCollision, ''min_entropy_estimate_collision_bits_per_byte'', Histogram (LinearBuckets 0 (1 / 2) 17))]"

definition service_metrics :: "metric_desc list" where
  "service_metrics =
     [(ProcessingLatency, ''event_processing_latency_microseconds'', Histogram (ExponentialBuckets 10 2 15)),
      (CloudAcksReceived, ''cloud_acks_received_total'', Counter),
      (CloudNacksReceived, ''cloud_nacks_received_total'', CounterVec [''reason'']),
      (EntropyHTTPRequests, ''entropy_http_requests_total'', CounterVec [''code'']),
      (EntropyHTTP503Total, ''entropy_http_503_total'', Counter),
      (EntropyHTTPRateLimited, ''entropy_http_rate_limited_total'', Counter),
      (EntropyHTTPLatency, ''entropy_http_latency_seconds'', Histogram (Buckets [1 / 200, 1 / 100, 1 / 40, 1 / 20, 1 / 10, 1 / 4, 1 / 2, 1, 2])),
      (ForwarderMissingSeqTotal, ''forwarder_missing_seq_total'', Counter),
      (ForwarderBackpressureTotal, ''forwarder_backpressure_total'', Counter),
      (ControlApplyTotal, ''control_apply_total'', CounterVec [''field'']),
      (SignatureFailTotal, ''signature_fail_total'', Counter),
      (GRPCServerConnectedClients, ''grpc_server_connected_clients'', Gauge),
      (GRPCServerBatchesSent, ''grpc_server_batches_sent_total'', Counter),
      (GRPCServerBatchesDropped, ''grpc_server_batches_dropped_total'', CounterVec [''reason'']),
      (GRPCServerAcksReceived, ''grpc_server_acks_received_total'', CounterVec [''success''])]"

definition initializeMetrics :: "metric_desc list" where
  "initializeMetrics = batch_metrics @ link_metrics @ service_metrics"

lemmas initializeMetrics_table =
  initializeMetrics_def[unfolded batch_metrics_def link_metrics_def service_metrics_def append_Cons append_Nil]

definition unregisterAll :: "metric list" where
  "unregisterAll =
     [EventsReceived, EventsProcessed, EventsDropped, EventFormatType, EventsPerChannel,
      ValidationFailures, ValidationFrequencyRatio, ValidationRunsCount, BatchesCreated,
      BatchesSent, BatchesFailed, BatchSize, BatchSendDuration, WhiteningInputBytes,
      WhiteningOutputBytes, WhiteningCompressionRatio, EntropyExtractions,
      EntropyExtractedBytes, EntropyPoolSize, GRPCConnected, GRPCReconnects,
      GRPCStreamErrors, MQTTConnected, MQTTReconnects, MQTTConnects, MQTTDisconnects,
      MQTTInboundMessages, CollectorPoolSize, CollectorBatchSize, CollectorFlushDuration,
      ContinuousRCTFailures, ContinuousAPTFailures, MinEntropyEstimateMCV,
      MinEntropyEstimateCollision, ProcessingLatency, CloudAcksReceived,
      CloudNacksReceived, EntropyHTTPRequests, EntropyHTTP503Total,
      EntropyHTTPRateLimited, EntropyHTTPLatency, ForwarderMissingSeqTotal,
      ForwarderBackpressureTotal, ControlApplyTotal, SignatureFailTotal,
      GRPCServerConnectedClients, GRPCServerBatchesSent, GRPCServerBatchesDropped,
      GRPCServerAcksReceived]"

subsection \<open>Calls on metrics\<close>

datatype metric_op =
    Inc metric "string list"
  | Add metric "string list" real
  | SetGauge metric real
  | Observe metric real

type_synonym metric_log = "metric_op list"

abbreviation real_of_float64 :: "rat \<Rightarrow> real" where
  "real_of_float64 \<equiv> real_of_rat"

abbreviation float_int :: "int \<Rightarrow> real" where
  "float_int n \<equiv> real_of_float64 (float64_of_int n)"

subsection \<open>Recording functions, in the order of the source\<close>

definition channelLabel :: "u32 \<Rightarrow> string" where
  "channelLabel channel =
     (if channel = 0 then ''0'' else if channel = 1 then ''1''
      else if channel = 2 then ''2'' else if channel = 3 then ''3'' else ''unknown'')"

definition RecordEntropyHTTPRequest :: "int \<Rightarrow> int \<Rightarrow> metric_log" where
  "RecordEntropyHTTPRequest code duration =
     (let label = (if code \<le> 0 then ''0'' else Itoa code);
          duration' = (if duration < 0 then 0 else duration)
      in [Inc EntropyHTTPRequests [label],
          Observe EntropyHTTPLatency (real_of_float64 (Seconds duration'))])"

definition RecordEntropyHTTP503 :: metric_log where
  "RecordEntropyHTTP503 = [Inc EntropyHTTP503Total []]"

definition RecordEntropyHTTPRateLimited :: metric_log where
  "RecordEntropyHTTPRateLimited = [Inc EntropyHTTPRateLimited []]"

definition RecordEvent :: "u32 \<Rightarrow> metric_log" where
  "RecordEvent channel = [Inc EventsReceived [channelLabel channel], Inc EventsProcessed []]"

definition RecordEventDropped :: "string \<Rightarrow> metric_log" where
  "RecordEventDropped reason = [Inc EventsDropped [reason]]"

definition RecordDroppedCount :: "string \<Rightarrow> u32 \<Rightarrow> metric_log" where
  "RecordDroppedCount reason count =
     (if count = 0 then [] else [Add EventsDropped [reason] (float_int (uint count))])"

definition RecordFormatType :: "string \<Rightarrow> metric_log" where
  "RecordFormatType format = [Inc EventFormatType [format]]"

definition RecordChannelEvent :: "u32 \<Rightarrow> metric_log" where
  "RecordChannelEvent channel = [Inc EventsPerChannel [channelLabel channel]]"

definition RecordValidation :: "rat \<Rightarrow> bool \<Rightarrow> int \<Rightarrow> bool \<Rightarrow> metric_log" where
  "RecordValidation freqRatio freqPassed runsCount runsPassed =
     [Observe ValidationFrequencyRatio (real_of_float64 freqRatio),
      Observe ValidationRunsCount (float_int runsCount)] @
     (if \<not> freqPassed then [Inc ValidationFailures [''frequency'']] else []) @
     (if \<not> runsPassed then [Inc ValidationFailures [''runs'']] else [])"

definition RecordBatch :: "int \<Rightarrow> rat \<Rightarrow> bool \<Rightarrow> string \<Rightarrow> metric_log" where
  "RecordBatch sz duration success failReason =
     [Inc BatchesCreated [], Observe BatchSize (float_int sz)] @
     (if success then [Inc BatchesSent [], Observe BatchSendDuration (real_of_float64 duration)]
      else [Inc BatchesFailed [failReason]])"

definition RecordWhitening :: "int \<Rightarrow> int \<Rightarrow> rat \<Rightarrow> metric_log" where
  "RecordWhitening inputBytes outputBytes ratio =
     (if inputBytes > 0
      then [Add WhiteningInputBytes [] (float_int inputBytes),
            Observe WhiteningCompressionRatio
              (real_of_float64 (if ratio < 0 then 0 else if ratio > 1 then 1 else ratio))]
      else []) @
     (if outputBytes > 0 then [Add WhiteningOutputBytes [] (float_int outputBytes)] else [])"

definition RecordEntropyExtraction :: "int \<Rightarrow> metric_log" where
  "RecordEntropyExtraction bytes =
     [Inc EntropyExtractions []] @
     (if bytes > 0 then [Add EntropyExtractedBytes [] (float_int bytes)] else [])"

definition SetEntropyPoolSize :: "int \<Rightarrow> metric_log" where
  "SetEntropyPoolSize bytes = [SetGauge EntropyPoolSize (float_int bytes)]"

definition SetGRPCConnected :: "bool \<Rightarrow> metric_log" where
  "SetGRPCConnected conn = [SetGauge GRPCConnected (if conn then 1 else 0)]"

definition RecordGRPCReconnect :: metric_log where
  "RecordGRPCReconnect = [Inc GRPCReconnects []]"

definition RecordGRPCError :: "string \<Rightarrow> metric_log" where
  "RecordGRPCError errorType = [Inc GRPCStreamErrors [errorType]]"

definition SetMQTTConnected :: "bool \<Rightarrow> metric_log" where
  "SetMQTTConnected conn = [SetGauge MQTTConnected (if conn then 1 else 0)]"

definition RecordMQTTReconnect :: metric_log where
  "RecordMQTTReconnect = [Inc MQTTReconnects []]"

definition RecordMQTTConnect :: metric_log where
  "RecordMQTTConnect = [Inc MQTTConnects []]"

definition RecordMQTTDisconnect :: metric_log where
  "RecordMQTTDisconnect = [Inc MQTTDisconnects []]"

definition RecordMQTTMessage :: metric_log where
  "RecordMQTTMessage = [Inc MQTTInboundMessages []]"

definition SetCollectorPoolSize :: "int \<Rightarrow> metric_log" where
  "SetCollectorPoolSize sz = [SetGauge CollectorPoolSize (float_int sz)]"

definition SetCollectorBatchSize :: "int \<Rightarrow> metric_log" where
  "SetCollectorBatchSize sz = [SetGauge CollectorBatchSize (float_int sz)]"

definition RecordCollectorFlush :: "int \<Rightarrow> metric_log" where
  "RecordCollectorFlush duration =
     (let duration' = (if duration < 0 then 0 else duration)
      in [Observe CollectorFlushDuration (real_of_float64 (Seconds duration'))])"

definition RecordCloudAck :: "bool \<Rightarrow> string \<Rightarrow> metric_log" where
  "RecordCloudAck success reason =
     (if success then [Inc CloudAcksReceived []] else [Inc CloudNacksReceived [reason]])"

definition RecordMissingSequence :: "int \<Rightarrow> metric_log" where
  "RecordMissingSequence count =
     (if count > 0 then [Add ForwarderMissingSeqTotal [] (float_int count)] else [])"

definition RecordBackpressure :: metric_log where
  "RecordBackpressure = [Inc ForwarderBackpressureTotal []]"

definition RecordControlApply :: "string \<Rightarrow> metric_log" where
  "RecordControlApply field = [Inc ControlApplyTotal [field]]"

definition RecordSignatureFail :: metric_log where
  "RecordSignatureFail = [Inc SignatureFailTotal []]"

definition RecordContinuousRCTFailure :: metric_log where
  "RecordContinuousRCTFailure = [Inc ContinuousRCTFailures []]"

definition RecordContinuousAPTFailure :: metric_log where
  "RecordContinuousAPTFailure = [Inc ContinuousAPTFailures []]"

definition RecordMinEntropyMCV :: "real \<Rightarrow> metric_log" where
  "RecordMinEntropyMCV minEntropy =
     [Observe MinEntropyEstimateMCV
        (if minEntropy < 0 then 0 else if minEntropy > 8 then 8 else minEntropy)]"

definition RecordMinEntropyCollision :: "real \<Rightarrow> metric_log" where
  "RecordMinEntropyCollision minEntropy =
     [Observe MinEntropyEstimateCollision
        (if minEntropy < 0 then 0 else if minEntropy > 8 then 8 else minEntropy)]"

definition SetGRPCServerConnectedClients :: "int \<Rightarrow> metric_log" where
  "SetGRPCServerConnectedClients count = [SetGauge GRPCServerConnectedClients (float_int count)]"

definition RecordGRPCServerBatchSent :: metric_log where
  "RecordGRPCServerBatchSent = [Inc GRPCServerBatchesSent []]"

definition RecordGRPCServerBatchDropped :: "string \<Rightarrow> metric_log" where
  "RecordGRPCServerBatchDropped reason = [Inc GRPCServerBatchesDropped [reason]]"

definition RecordGRPCServerAckReceived :: "bool \<Rightarrow> string \<Rightarrow> metric_log" where
  "RecordGRPCServerAckReceived success reason =
     [Inc GRPCServerAcksReceived [if \<not> success then ''false'' else ''true'']]"

lemmas record_defs =
  RecordEntropyHTTPRequest_def RecordEntropyHTTP503_def RecordEntropyHTTPRateLimited_def
  RecordEvent_def RecordEventDropped_def RecordDroppedCount_def RecordFormatType_def
  RecordChannelEvent_def RecordValidation_def RecordBatch_def RecordWhitening_def
  RecordEntropyExtraction_def SetEntropyPoolSize_def SetGRPCConnected_def
  RecordGRPCReconnect_def RecordGRPCError_def SetMQTTConnected_def RecordMQTTReconnect_def
  RecordMQTTConnect_def RecordMQTTDisconnect_def RecordMQTTMessage_def SetCollectorPoolSize_def
  SetCollectorBatchSize_def RecordCollectorFlush_def RecordCloudAck_def
  RecordMissingSequence_def RecordBackpressure_def RecordControlApply_def
  RecordSignatureFail_def RecordContinuousRCTFailure_def RecordContinuousAPTFailure_def
  RecordMinEntropyMCV_def RecordMinEntropyCollision_def SetGRPCServerConnectedClients_def
  RecordGRPCServerBatchSent_def RecordGRPCServerBatchDropped_def
  RecordGRPCServerAckReceived_def

subsection \<open>Calls that fit the registered metrics\<close>

definition metric_kind_of :: "metric \<Rightarrow> metric_kind" where
  "metric_kind_of m = (case map_of initializeMetrics m of Some (_, k) \<Rightarrow> k | None \<Rightarrow> Gauge)"

fun op_ok :: "metric_op \<Rightarrow> bool" where
  "op_ok (Inc m ls) =
     (case metric_kind_of m of Counter \<Rightarrow> ls = [] | CounterVec vs \<Rightarrow> length ls = length vs
      | Gauge \<Rightarrow> False | Histogram _ \<Rightarrow> False)"
| "op_ok (Add m ls x) =
     (case metric_kind_of m of Counter \<Rightarrow> ls = [] \<and> 0 \<le> x
      | CounterVec vs \<Rightarrow> length ls = length vs \<and> 0 \<le> x | Gauge \<Rightarrow> False | Histogram _ \<Rightarrow> False)"
| "op_ok (SetGauge m x) =
     (case metric_kind_of m of Gauge \<Rightarrow> True | _ \<Rightarrow> False)"
| "op_ok (Observe m x) =
     (case metric_kind_of m of Histogram _ \<Rightarrow> True | _ \<Rightarrow> False)"

definition log_ok :: "metric_log \<Rightarrow> bool" where
  "log_ok ms = list_all op_ok ms"

lemma log_ok_append [simp]: "log_ok (xs @ ys) \<longleftrightarrow> log_ok xs \<and> log_ok ys"
  by (simp add: log_ok_def)

lemma log_ok_Nil [simp]: "log_ok []"
  by (simp add: log_ok_def)

lemma log_ok_if [simp]: "log_ok (if b then xs else ys) \<longleftrightarrow> (if b then log_ok xs else log_ok ys)"
  by simp

lemma real_of_float64_nonneg: "0 \<le> x \<Longrightarrow> 0 \<le> real_of_float64 x"
  by simp

lemma float_int_nonneg: "0 \<le> n \<Longrightarrow> 0 \<le> float_int n"
  by (simp add: float64_of_int_nonneg)

text \<open>
  How many times a metric is incremented by one, whatever the labels; what \<^verbatim>\<open>Add\<close> puts on top of
  that is not counted here.
\<close>

definition count_inc :: "metric \<Rightarrow> metric_log \<Rightarrow> nat" where
  "count_inc m ms = length (filter (\<lambda>op. case op of Inc m' _ \<Rightarrow> m' = m | _ \<Rightarrow> False) ms)"

lemma count_inc_append [simp]: "count_inc m (xs @ ys) = count_inc m xs + count_inc m ys"
  by (simp add: count_inc_def)

lemma count_inc_Nil [simp]: "count_inc m [] = 0"
  by (simp add: count_inc_def)

lemma count_inc_Cons [simp]:
  "count_inc m (op # xs) = (case op of Inc m' _ \<Rightarrow> if m' = m then 1 else 0 | _ \<Rightarrow> 0) + count_inc m xs"
  by (simp add: count_inc_def split: metric_op.split)

text \<open>By how much a counter rises in all, by \<^verbatim>\<open>Inc\<close> and by \<^verbatim>\<open>Add\<close>, over all its labels.\<close>

fun counter_step :: "metric \<Rightarrow> metric_op \<Rightarrow> real" where
  "counter_step m (Inc m' ls) = (if m' = m then 1 else 0)"
| "counter_step m (Add m' ls x) = (if m' = m then x else 0)"
| "counter_step m op = 0"

definition counter_total :: "metric \<Rightarrow> metric_log \<Rightarrow> real" where
  "counter_total m ms = sum_list (map (counter_step m) ms)"

lemma counter_total_simps [simp]:
  "counter_total m [] = 0"
  "counter_total m (op # ms) = counter_step m op + counter_total m ms"
  "counter_total m (ms @ ms') = counter_total m ms + counter_total m ms'"
  by (simp_all add: counter_total_def)

text \<open>Every metric variable is registered once, under a name of its own.\<close>

lemma metrics_distinct: "distinct (map fst initializeMetrics)"
  unfolding initializeMetrics_table by code_simp

lemma metric_names_distinct: "distinct (map (fst \<circ> snd) initializeMetrics)"
  unfolding initializeMetrics_table by code_simp

lemma metric_kinds:
  "list_all (\<lambda>(m, _, k). metric_kind_of m = k) initializeMetrics"
  using metrics_distinct
  by (auto simp: list_all_iff metric_kind_of_def split: option.split)

lemmas metric_kind_simps [simp] =
  metric_kinds[unfolded initializeMetrics_table list.pred_inject prod.case, simplified]

lemma record_ok:
  "log_ok (RecordEntropyHTTPRequest code d)" "log_ok RecordEntropyHTTP503"
  "log_ok RecordEntropyHTTPRateLimited" "log_ok (RecordEvent ch)"
  "log_ok (RecordEventDropped r)" "log_ok (RecordDroppedCount r c)"
  "log_ok (RecordFormatType f)" "log_ok (RecordChannelEvent ch)"
  "log_ok (RecordValidation q b n b')" "log_ok (RecordBatch n q b r)"
  "log_ok (RecordWhitening n k q)" "log_ok (RecordEntropyExtraction n)"
  "log_ok (SetEntropyPoolSize n)" "log_ok (SetGRPCConnected b)" "log_ok RecordGRPCReconnect"
  "log_ok (RecordGRPCError r)" "log_ok (SetMQTTConnected b)" "log_ok RecordMQTTReconnect"
  "log_ok RecordMQTTConnect" "log_ok RecordMQTTDisconnect" "log_ok RecordMQTTMessage"
  "log_ok (SetCollectorPoolSize n)" "log_ok (SetCollectorBatchSize n)"
  "log_ok (RecordCollectorFlush d)" "log_ok (RecordCloudAck b r)"
  "log_ok (RecordMissingSequence n)" "log_ok RecordBackpressure" "log_ok (RecordControlApply r)"
  "log_ok RecordSignatureFail" "log_ok RecordContinuousRCTFailure"
  "log_ok RecordContinuousAPTFailure" "log_ok (RecordMinEntropyMCV e)"
  "log_ok (RecordMinEntropyCollision e)" "log_ok (SetGRPCServerConnectedClients n)"
  "log_ok RecordGRPCServerBatchSent" "log_ok (RecordGRPCServerBatchDropped r)"
  "log_ok (RecordGRPCServerAckReceived b r)"
  by (simp_all add: record_defs log_ok_def Let_def float64_of_int_nonneg)

declare record_ok [simp]

end
