(* ===== verification/Mqtt_Handler.thy ===== *)
theory Mqtt_Handler
  imports Metrics
begin

text \<open>
  The MQTT message handler of \<^verbatim>\<open>internal/mqtt/handler.go\<close>: a topic and a payload become a
  \<open>TDCEvent\<close> handed to the collector, or a counted drop. The wall clock (\<^verbatim>\<open>timeNowMicros\<close>) and
  the measured latency are arguments. The Go interface \<^verbatim>\<open>Collector\<close> is a record of the two
  operations, each a state transformer on the collector's state that also returns the metric
  calls it makes; the locale \<open>event_sink\<close> is its contract.
\<close>

subsection \<open>Events and the collector interface\<close>

record TDCEvent =
  RpiTimestampUs :: u64
  Channel :: u32
  TdcTimestampPs :: u64
  DeltaPs :: "int option"
  Flags :: "u32 option"

record 's Collector =
  coll_Add :: "'s \<Rightarrow> TDCEvent \<Rightarrow> 's \<times> metric_log"
  coll_IncrementDropped :: "'s \<Rightarrow> u32 \<Rightarrow> 's \<times> metric_log"

subsection \<open>The source's functions\<close>

definition isMetaTopic :: "string \<Rightarrow> bool" where
  "isMetaTopic topic = HasSuffix (ToLower (TrimSpace topic)) ''/meta''"

definition extractChannelFromTopic :: "string \<Rightarrow> u32" where
  "extractChannelFromTopic topic =
     (let parts = Split CHR ''/'' topic
      in if parts = [] then 0
         else case ParseUint (last parts) 32 of Inr ch \<Rightarrow> word_of_nat ch | Inl _ \<Rightarrow> 0)"

definition nowMicrosSafe :: "int \<Rightarrow> u64" where
  "nowMicrosSafe ts = (if ts \<le> 0 then 0 else word_of_int ts)"

definition parseRawTimestamp :: "int \<Rightarrow> string \<Rightarrow> string \<Rightarrow> num_error + TDCEvent" where
  "parseRawTimestamp now topic payload =
     (let timestampStr = TrimSpace payload
      in case ParseUint timestampStr 64 of
           Inl err \<Rightarrow> Inl err
         | Inr timestamp \<Rightarrow>
             (let channel = extractChannelFromTopic topic;
                  rpiTimestamp = nowMicrosSafe now
              in Inr \<lparr>RpiTimestampUs = rpiTimestamp, Channel = channel,
                      TdcTimestampPs = word_of_nat timestamp, DeltaPs = None, Flags = None\<rparr>))"

definition drop_event ::
    "'s Collector option \<Rightarrow> string \<Rightarrow> 's \<Rightarrow> 's \<times> metric_log" where
  "drop_event collector reason s =
     (let ms = RecordEventDropped reason
      in case collector of
           None \<Rightarrow> (s, ms)
         | Some c \<Rightarrow> (case coll_IncrementDropped c s 1 of (s', ms') \<Rightarrow> (s', ms @ ms')))"

definition OnMessage ::
    "'s Collector option \<Rightarrow> int \<Rightarrow> int \<Rightarrow> string \<Rightarrow> string \<Rightarrow> 's \<Rightarrow> 's \<times> metric_log" where
  "OnMessage collector now latencyMicros topic payload s =
     (if isMetaTopic topic then (s, RecordMQTTMessage)
      else case parseRawTimestamp now topic payload of
             Inl err \<Rightarrow>
               (case drop_event collector ''parse_error'' s of
                  (s', ms) \<Rightarrow> (s', RecordMQTTMessage @ ms))
           | Inr event \<Rightarrow>
               if TdcTimestampPs event = 0 then
                 (case drop_event collector ''invalid_timestamp'' s of
                    (s', ms) \<Rightarrow> (s', RecordMQTTMessage @ ms))
               else
                 let ms = RecordMQTTMessage @ RecordEvent (Channel event) @
                          RecordFormatType ''raw_timestamp'' @ RecordChannelEvent (Channel event);
                     (s', ms') = (case collector of
                        Some c \<Rightarrow> coll_Add c s event
                      | None \<Rightarrow> (s, []));
                     ms'' = (if latencyMicros > 0
                             then [Observe ProcessingLatency (float_int latencyMicros)] else [])
                 in (s', ms @ ms' @ ms''))"

subsection \<open>Which messages become events\<close>

text \<open>The events a message contributes: one if it is accepted, none otherwise.\<close>

definition accepted_event :: "int \<Rightarrow> string \<Rightarrow> string \<Rightarrow> TDCEvent option" where
  "accepted_event now topic payload =
     (if isMetaTopic topic then None
      else case parseRawTimestamp now topic payload of
             Inl _ \<Rightarrow> None
           | Inr event \<Rightarrow> if TdcTimestampPs event = 0 then None else Some event)"

lemma uint64_eq_0_iff: "n < 2 ^ 64 \<Longrightarrow> (word_of_nat n :: u64) = 0 \<longleftrightarrow> n = 0"
  by (auto simp: word_of_nat_eq_0_iff dest: nat_dvd_not_less)

text \<open>
  A message is accepted exactly when its topic is no metadata topic and its trimmed payload is
  a decimal number between 1 and \<open>2 ^ 64 - 1\<close>, and the event carries that number.
\<close>

lemma accepted_event_iff:
  "accepted_event now topic payload = Some e \<longleftrightarrow>
     \<not> isMetaTopic topic \<and> TrimSpace payload \<noteq> [] \<and> list_all is_digit (TrimSpace payload) \<and>
     0 < decimal (TrimSpace payload) \<and> decimal (TrimSpace payload) < 2 ^ 64 \<and>
     e = \<lparr>RpiTimestampUs = nowMicrosSafe now, Channel = extractChannelFromTopic topic,
          TdcTimestampPs = word_of_nat (decimal (TrimSpace payload)), DeltaPs = None,
          Flags = None\<rparr>"
proof (cases "ParseUint (TrimSpace payload) 64")
  case (Inl err)
  then have "\<not> (TrimSpace payload \<noteq> [] \<and> list_all is_digit (TrimSpace payload) \<and>
      decimal (TrimSpace payload) < 2 ^ 64)"
    using ParseUint_iff[of "TrimSpace payload" 64 "decimal (TrimSpace payload)"] by auto
  with Inl show ?thesis by (auto simp: accepted_event_def parseRawTimestamp_def)
next
  case (Inr v)
  then have v: "TrimSpace payload \<noteq> []" "list_all is_digit (TrimSpace payload)"
    "v = decimal (TrimSpace payload)" "v < 2 ^ 64"
    using ParseUint_iff[of "TrimSpace payload" 64 v] by auto
  with Inr uint64_eq_0_iff[OF v(4)] show ?thesis
    by (auto simp: accepted_event_def parseRawTimestamp_def Let_def)
qed

lemma extractChannel_number:
  assumes "n < 2 ^ 32"
  shows "extractChannelFromTopic (path @ CHR ''/'' # utoa n) = word_of_nat n"
proof -
  have "CHR ''/'' \<notin> set (utoa n)"
  proof
    assume "CHR ''/'' \<in> set (utoa n)"
    then have "is_digit CHR ''/''" using utoa_digits[of n] by (simp add: list_all_iff)
    then show False by (simp add: is_digit_def)
  qed
  with ParseUint_utoa[OF assms] show ?thesis
    by (simp add: extractChannelFromTopic_def Split_append_sep)
qed

lemma parse_printed:
  assumes "t < 2 ^ 64"
  shows "parseRawTimestamp now topic (utoa t) =
    Inr \<lparr>RpiTimestampUs = nowMicrosSafe now, Channel = extractChannelFromTopic topic,
         TdcTimestampPs = word_of_nat t, DeltaPs = None, Flags = None\<rparr>"
  using ParseUint_utoa[OF assms] TrimSpace_digits[OF utoa_nonempty utoa_digits]
  by (simp add: parseRawTimestamp_def Let_def)

subsection \<open>The contract of a collector\<close>

text \<open>
  What the handler relies on: \<open>Add\<close> appends one event to the stream the collector has received,
  \<open>IncrementDropped\<close> does not touch the stream, and both make fitting metric calls that count
  neither messages nor events. \<open>own_drops s\<close> is what \<open>IncrementDropped\<close> itself adds to the counter of
  drops when one drop is reported, on top of what the handler records. \<open>ready\<close> is the state in
  which \<open>Add\<close> returns at once.
\<close>

locale event_sink =
  fixes c :: "'s Collector"
    and received :: "'s \<Rightarrow> TDCEvent list"
    and ready :: "'s \<Rightarrow> bool"
    and own_drops :: "'s \<Rightarrow> real"
  assumes add_received:
      "ready s \<Longrightarrow> received (fst (coll_Add c s e)) = received s @ [e]"
    and dropped_received: "received (fst (coll_IncrementDropped c s n)) = received s"
    and add_log: "log_ok (snd (coll_Add c s e))"
    and dropped_log: "log_ok (snd (coll_IncrementDropped c s n))"
    and add_counts: "m \<in> {MQTTInboundMessages, EventsProcessed, EventsDropped} \<Longrightarrow>
      counter_total m (snd (coll_Add c s e)) = 0"
    and dropped_counts: "m \<in> {MQTTInboundMessages, EventsProcessed} \<Longrightarrow>
      counter_total m (snd (coll_IncrementDropped c s 1)) = 0"
    and dropped_drops: "counter_total EventsDropped (snd (coll_IncrementDropped c s 1)) = own_drops s"
begin

lemma message_received:
  assumes "ready s"
  shows "received (fst (OnMessage (Some c) now lat topic payload s)) =
    received s @ (case accepted_event now topic payload of None \<Rightarrow> [] | Some e \<Rightarrow> [e])"
  using add_received[OF assms] dropped_received
  by (auto simp: OnMessage_def accepted_event_def drop_event_def Let_def case_prod_beta
      split: sum.split)

lemma message_log: "log_ok (snd (OnMessage (Some c) now lat topic payload s))"
  using add_log dropped_log
  by (auto simp: OnMessage_def drop_event_def Let_def case_prod_beta log_ok_def[of "[_]"]
      split: sum.split)

text \<open>
  Every message is counted once; an accepted one as one event, any other that is no metadata as one
  drop by the handler and as \<open>own_drops\<close> more by the collector.
\<close>

lemma message_counts:
  "counter_total MQTTInboundMessages (snd (OnMessage (Some c) now lat topic payload s)) = 1"
  "counter_total EventsProcessed (snd (OnMessage (Some c) now lat topic payload s)) =
     (case accepted_event now topic payload of Some e \<Rightarrow> 1 | None \<Rightarrow> 0)"
  "counter_total EventsDropped (snd (OnMessage (Some c) now lat topic payload s)) =
     (case accepted_event now topic payload of
        Some e \<Rightarrow> 0 | None \<Rightarrow> if isMetaTopic topic then 0 else 1 + own_drops s)"
  using add_counts dropped_counts dropped_drops
  by (auto simp: OnMessage_def accepted_event_def drop_event_def Let_def case_prod_beta
      record_defs split: sum.split)

end

subsection \<open>Properties\<close>

text \<open>C18: What a message does, for any collector: it is handed over as one event exactly when its
  topic is no metadata topic and its trimmed payload is a decimal number from 1 to
  \<open>2 ^ 64 - 1\<close>, and the event carries that number, the channel read from the topic and the
  reading of the clock; any other message that is not metadata is reported to the collector as
  one dropped event, and metadata touches nothing.\<close>

theorem message_outcome:
  "fst (OnMessage (Some c) now lat topic payload s) =
     (case accepted_event now topic payload of
        Some e \<Rightarrow> fst (coll_Add c s e)
      | None \<Rightarrow> if isMetaTopic topic then s else fst (coll_IncrementDropped c s 1)) \<and>
   (accepted_event now topic payload = Some event \<longleftrightarrow>
     \<not> isMetaTopic topic \<and> TrimSpace payload \<noteq> [] \<and> list_all is_digit (TrimSpace payload) \<and>
     0 < decimal (TrimSpace payload) \<and> decimal (TrimSpace payload) < 2 ^ 64 \<and>
     event = \<lparr>RpiTimestampUs = nowMicrosSafe now, Channel = extractChannelFromTopic topic,
        TdcTimestampPs = word_of_nat (decimal (TrimSpace payload)), DeltaPs = None, Flags = None\<rparr>)"
proof
  show "fst (OnMessage (Some c) now lat topic payload s) =
     (case accepted_event now topic payload of
        Some e \<Rightarrow> fst (coll_Add c s e)
      | None \<Rightarrow> if isMetaTopic topic then s else fst (coll_IncrementDropped c s 1))"
    by (auto simp: OnMessage_def accepted_event_def drop_event_def Let_def case_prod_beta split: sum.split)
qed (rule accepted_event_iff)

lemma digit_topic_not_meta: "\<not> isMetaTopic (path @ CHR ''/'' # utoa n)"
proof
  let ?t = "path @ CHR ''/'' # utoa n"
  assume "isMetaTopic ?t"
  then have "suffix ''/meta'' (ToLower (TrimSpace ?t))" by (simp add: isMetaTopic_def HasSuffix_def)
  then have last: "last (ToLower (TrimSpace ?t)) = CHR ''a''" by (auto simp: suffix_def)
  have d: "is_digit (last ?t)" using utoa_digits[of n] by (simp add: list_all_iff)
  have "TrimSpace ?t \<noteq> [] \<and> last (TrimSpace ?t) = last ?t"
    using TrimSpace_last[of ?t] is_digit_plain[OF d] by auto
  then have "is_digit (last (ToLower (TrimSpace ?t)))"
    using ToLower_last_digit[of "TrimSpace ?t"] d by auto
  then show False using last by (simp add: is_digit_def)
qed



end
