(* ===== verification/Collector.thy ===== *)
theory Collector
  imports Mqtt_Handler
begin

text \<open>
  The batch collector of \<^verbatim>\<open>internal/collector/collector.go\<close>. The record \<open>BatchCollector\<close> holds the
  struct's data; \<open>flush\<close>, \<open>BC_Add\<close> and the constructors are functions on it. The code runs in
  four places at once (callers of \<open>Add\<close>, the auto-flush goroutine, the send loop, a caller of
  \<open>Close\<close>), so their interleaving is a step relation: one rule per atomic action, where the mutex
  is held across a channel send that blocks. \<open>exec\<close> is the same relation as a function.

  The capacity of the event slice is left out: \<open>flush\<close> may replace the emptied slice by a new
  empty one to give memory back, which changes no element and no length.
\<close>

subsection \<open>State and operations\<close>

record sendRequest =
  req_batch :: "TDCEvent list"
  req_seq :: u32

record BatchCollector =
  bc_events :: "TDCEvent list"
  bc_maxSize :: int
  bc_flushInterval :: int
  bc_pendingSends :: int
  bc_sendQueue :: "sendRequest list"
  bc_queueCap :: int
  bc_queueClosed :: bool
  bc_sequence :: u32
  bc_cancelled :: bool

definition maxInt :: "int \<Rightarrow> int \<Rightarrow> int" where
  "maxInt a b = (if a > b then a else b)"

text \<open>\<open>None\<close> is the panic of \<^verbatim>\<open>make\<close> on a negative capacity.\<close>

definition NewBatchCollectorWithFlush :: "int \<Rightarrow> int \<Rightarrow> BatchCollector option" where
  "NewBatchCollectorWithFlush maxSize flushInterval =
     (if maxSize < 0 then None
      else Some \<lparr>bc_events = [], bc_maxSize = maxSize, bc_flushInterval = flushInterval,
                 bc_pendingSends = 0, bc_sendQueue = [],
                 bc_queueCap = maxInt 1 (go_div maxSize 2), bc_queueClosed = False,
                 bc_sequence = 0, bc_cancelled = False\<rparr>)"

definition NewBatchCollector :: "int \<Rightarrow> BatchCollector option" where
  "NewBatchCollector maxSize = NewBatchCollectorWithFlush maxSize (10 * second)"

text \<open>
  \<open>flush\<close> up to its last statement, the send on \<^verbatim>\<open>sendQueue\<close>: the request to send, if any, is
  returned. The duration between its two clock readings is an argument.
\<close>

definition flush ::
    "int \<Rightarrow> BatchCollector \<Rightarrow> BatchCollector \<times> sendRequest option \<times> metric_log" where
  "flush flushDuration bc =
     (if bc_events bc = [] then (bc, None, [])
      else
        let batch = bc_events bc;
            bc1 = bc\<lparr>bc_sequence := bc_sequence bc + 1\<rparr>;
            seq = bc_sequence bc1;
            bc2 = bc1\<lparr>bc_events := []\<rparr>;
            bc3 = bc2\<lparr>bc_pendingSends := bc_pendingSends bc2 + 1\<rparr>
        in (bc3, Some \<lparr>req_batch = batch, req_seq = seq\<rparr>,
            SetCollectorPoolSize 0 @ RecordCollectorFlush flushDuration))"

definition BC_Add ::
    "int \<Rightarrow> BatchCollector \<Rightarrow> TDCEvent \<Rightarrow> BatchCollector \<times> sendRequest option \<times> metric_log" where
  "BC_Add flushDuration bc event =
     (let bc1 = bc\<lparr>bc_events := bc_events bc @ [event]\<rparr>;
          ms1 = SetCollectorPoolSize (int (length (bc_events bc1)))
      in if int (length (bc_events bc1)) \<ge> bc_maxSize bc1 then
           (case flush flushDuration bc1 of (bc2, req, ms2) \<Rightarrow> (bc2, req, ms1 @ ms2))
         else (bc1, None, ms1))"

text \<open>A send on the bounded channel: done, waiting for room, or a panic when it is closed.\<close>

datatype chan_outcome = ChanSent BatchCollector | ChanBlocked | ChanPanic

definition send_on_queue :: "BatchCollector \<Rightarrow> sendRequest \<Rightarrow> chan_outcome" where
  "send_on_queue bc req =
     (if bc_queueClosed bc then ChanPanic
      else if int (length (bc_sendQueue bc)) < bc_queueCap bc
           then ChanSent (bc\<lparr>bc_sendQueue := bc_sendQueue bc @ [req]\<rparr>)
      else ChanBlocked)"

definition autoFlush_interval :: "BatchCollector \<Rightarrow> int" where
  "autoFlush_interval bc = (if bc_flushInterval bc \<le> 0 then 10 * second else bc_flushInterval bc)"

text \<open>
  The sender behind the collector, as the two operations of \<^verbatim>\<open>BatchSender\<close>; the send loop calls it
  once for every request it receives and goes on after an error.
\<close>

record 'f BatchSender =
  bs_SendBatch :: "'f \<Rightarrow> TDCEvent list \<Rightarrow> u32 \<Rightarrow> 'f \<times> bool \<times> metric_log"
  bs_IncrementDropped :: "'f \<Rightarrow> u32 \<Rightarrow> 'f \<times> metric_log"

definition BC_IncrementDropped :: "'f BatchSender option \<Rightarrow> 'f \<Rightarrow> u32 \<Rightarrow> 'f \<times> metric_log" where
  "BC_IncrementDropped forwarder f count =
     (case forwarder of None \<Rightarrow> (f, []) | Some fw \<Rightarrow> bs_IncrementDropped fw f count)"

fun runSendLoop :: "'f BatchSender \<Rightarrow> 'f \<Rightarrow> sendRequest list \<Rightarrow> 'f \<times> metric_log" where
  "runSendLoop fw f [] = (f, [])"
| "runSendLoop fw f (job # jobs) =
     (case bs_SendBatch fw f (req_batch job) (req_seq job) of (f1, failed, ms1) \<Rightarrow>
        case runSendLoop fw f1 jobs of (f2, ms2) \<Rightarrow> (f2, ms1 @ ms2))"

subsection \<open>Interleavings\<close>

datatype agent = Adder | AutoFlusher | Closer
datatype auto_pc = AutoSelect | AutoFired | AutoExited
datatype close_pc = CloseIdle | CloseCancelled | CloseFlushed | CloseWaiting | CloseReturned
datatype worker_pc = WorkerIdle | WorkerSending sendRequest | WorkerExited

text \<open>
  \<open>sys_lock\<close> is the holder of the mutex inside a channel send, with the request it sends;
  \<open>sys_sent\<close> lists the requests passed to \<^verbatim>\<open>SendBatch\<close>.
\<close>

record system =
  sys_bc :: BatchCollector
  sys_lock :: "(agent \<times> sendRequest) option"
  sys_worker :: worker_pc
  sys_auto :: auto_pc
  sys_close :: close_pc
  sys_sent :: "sendRequest list"
  sys_panicked :: bool

datatype label =
    LAdd int TDCEvent | LEnqueue | LPanic
  | LTick | LAutoFlush int | LAutoExit
  | LCancel | LCloseFlush int | LCloseQueue | LCloseDone | LCloseTimeout
  | LDequeue | LSent | LWorkerExit

definition init_system :: "BatchCollector \<Rightarrow> system" where
  "init_system bc =
     \<lparr>sys_bc = bc, sys_lock = None, sys_worker = WorkerIdle, sys_auto = AutoSelect,
      sys_close = CloseIdle, sys_sent = [], sys_panicked = False\<rparr>"

definition holds_lock :: "agent \<Rightarrow> system \<Rightarrow> bool" where
  "holds_lock a s = (case sys_lock s of None \<Rightarrow> False | Some (b, _) \<Rightarrow> a = b)"

abbreviation request_of :: "agent \<Rightarrow> sendRequest option \<Rightarrow> (agent \<times> sendRequest) option" where
  "request_of a r \<equiv> map_option (Pair a) r"

inductive cstep :: "system \<Rightarrow> label \<Rightarrow> system \<Rightarrow> bool" where
  add: "\<not> sys_panicked s \<Longrightarrow> sys_lock s = None \<Longrightarrow> BC_Add d (sys_bc s) e = (bc', r, ms) \<Longrightarrow>
    cstep s (LAdd d e) (s\<lparr>sys_bc := bc', sys_lock := request_of Adder r\<rparr>)"
| enqueue: "\<not> sys_panicked s \<Longrightarrow> sys_lock s = Some (a, r) \<Longrightarrow>
    send_on_queue (sys_bc s) r = ChanSent bc' \<Longrightarrow>
    cstep s LEnqueue (s\<lparr>sys_bc := bc', sys_lock := None\<rparr>)"
| panic: "\<not> sys_panicked s \<Longrightarrow> sys_lock s = Some (a, r) \<Longrightarrow>
    send_on_queue (sys_bc s) r = ChanPanic \<Longrightarrow>
    cstep s LPanic (s\<lparr>sys_panicked := True\<rparr>)"
| tick: "\<not> sys_panicked s \<Longrightarrow> sys_auto s = AutoSelect \<Longrightarrow> \<not> holds_lock AutoFlusher s \<Longrightarrow>
    cstep s LTick (s\<lparr>sys_auto := AutoFired\<rparr>)"
| auto_flush: "\<not> sys_panicked s \<Longrightarrow> sys_auto s = AutoFired \<Longrightarrow> sys_lock s = None \<Longrightarrow>
    flush d (sys_bc s) = (bc', r, ms) \<Longrightarrow>
    cstep s (LAutoFlush d)
      (s\<lparr>sys_bc := bc', sys_lock := request_of AutoFlusher r, sys_auto := AutoSelect\<rparr>)"
| auto_exit: "\<not> sys_panicked s \<Longrightarrow> sys_auto s = AutoSelect \<Longrightarrow> \<not> holds_lock AutoFlusher s \<Longrightarrow>
    bc_cancelled (sys_bc s) \<Longrightarrow> cstep s LAutoExit (s\<lparr>sys_auto := AutoExited\<rparr>)"
| cancel: "\<not> sys_panicked s \<Longrightarrow> sys_close s \<in> {CloseIdle, CloseReturned} \<Longrightarrow>
    cstep s LCancel
      (s\<lparr>sys_bc := (sys_bc s)\<lparr>bc_cancelled := True\<rparr>, sys_close := CloseCancelled\<rparr>)"
| close_flush: "\<not> sys_panicked s \<Longrightarrow> sys_close s = CloseCancelled \<Longrightarrow> sys_lock s = None \<Longrightarrow>
    flush d (sys_bc s) = (bc', r, ms) \<Longrightarrow>
    cstep s (LCloseFlush d)
      (s\<lparr>sys_bc := bc', sys_lock := request_of Closer r, sys_close := CloseFlushed\<rparr>)"
| close_queue: "\<not> sys_panicked s \<Longrightarrow> sys_close s = CloseFlushed \<Longrightarrow> \<not> holds_lock Closer s \<Longrightarrow>
    cstep s LCloseQueue
      (s\<lparr>sys_bc := (sys_bc s)\<lparr>bc_queueClosed := True\<rparr>, sys_close := CloseWaiting\<rparr>)"
| close_done: "\<not> sys_panicked s \<Longrightarrow> sys_close s = CloseWaiting \<Longrightarrow> sys_worker s = WorkerExited \<Longrightarrow>
    bc_pendingSends (sys_bc s) = 0 \<Longrightarrow> sys_auto s = AutoExited \<Longrightarrow>
    cstep s LCloseDone (s\<lparr>sys_close := CloseReturned\<rparr>)"
| close_timeout: "\<not> sys_panicked s \<Longrightarrow> sys_close s = CloseWaiting \<Longrightarrow>
    cstep s LCloseTimeout (s\<lparr>sys_close := CloseReturned\<rparr>)"
| dequeue: "\<not> sys_panicked s \<Longrightarrow> sys_worker s = WorkerIdle \<Longrightarrow>
    bc_sendQueue (sys_bc s) = r # q \<Longrightarrow>
    cstep s LDequeue
      (s\<lparr>sys_bc := (sys_bc s)\<lparr>bc_sendQueue := q\<rparr>, sys_worker := WorkerSending r\<rparr>)"
| sent: "\<not> sys_panicked s \<Longrightarrow> sys_worker s = WorkerSending r \<Longrightarrow>
    cstep s LSent
      (s\<lparr>sys_bc := (sys_bc s)\<lparr>bc_pendingSends := bc_pendingSends (sys_bc s) - 1\<rparr>,
        sys_worker := WorkerIdle, sys_sent := sys_sent s @ [r]\<rparr>)"
| worker_exit: "\<not> sys_panicked s \<Longrightarrow> sys_worker s = WorkerIdle \<Longrightarrow>
    bc_sendQueue (sys_bc s) = [] \<Longrightarrow> bc_queueClosed (sys_bc s) \<Longrightarrow>
    cstep s LWorkerExit (s\<lparr>sys_worker := WorkerExited\<rparr>)"

inductive_cases cstepE [elim]:
  "cstep s (LAdd d e) s'" "cstep s LEnqueue s'" "cstep s LPanic s'" "cstep s LTick s'"
  "cstep s (LAutoFlush d) s'" "cstep s LAutoExit s'" "cstep s LCancel s'"
  "cstep s (LCloseFlush d) s'" "cstep s LCloseQueue s'" "cstep s LCloseDone s'"
  "cstep s LCloseTimeout s'" "cstep s LDequeue s'" "cstep s LSent s'" "cstep s LWorkerExit s'"

inductive crun :: "system \<Rightarrow> label list \<Rightarrow> system \<Rightarrow> bool" where
  crun_Nil: "crun s [] s"
| crun_snoc: "crun s ls s' \<Longrightarrow> cstep s' l s'' \<Longrightarrow> crun s (ls @ [l]) s''"

text \<open>The same steps as a function of the label.\<close>

fun exec :: "system \<Rightarrow> label \<Rightarrow> system option" where
  "exec s (LAdd d e) =
     (if \<not> sys_panicked s \<and> sys_lock s = None
      then (case BC_Add d (sys_bc s) e of (bc', r, _) \<Rightarrow>
              Some (s\<lparr>sys_bc := bc', sys_lock := request_of Adder r\<rparr>)) else None)"
| "exec s LEnqueue =
     (case sys_lock s of None \<Rightarrow> None
      | Some (a, r) \<Rightarrow> if sys_panicked s then None else
          (case send_on_queue (sys_bc s) r of
             ChanSent bc' \<Rightarrow> Some (s\<lparr>sys_bc := bc', sys_lock := None\<rparr>) | _ \<Rightarrow> None))"
| "exec s LPanic =
     (case sys_lock s of None \<Rightarrow> None
      | Some (a, r) \<Rightarrow> if sys_panicked s then None else
          (case send_on_queue (sys_bc s) r of
             ChanPanic \<Rightarrow> Some (s\<lparr>sys_panicked := True\<rparr>) | _ \<Rightarrow> None))"
| "exec s LTick =
     (if \<not> sys_panicked s \<and> sys_auto s = AutoSelect \<and> \<not> holds_lock AutoFlusher s
      then Some (s\<lparr>sys_auto := AutoFired\<rparr>) else None)"
| "exec s (LAutoFlush d) =
     (if \<not> sys_panicked s \<and> sys_auto s = AutoFired \<and> sys_lock s = None
      then (case flush d (sys_bc s) of (bc', r, _) \<Rightarrow>
              Some (s\<lparr>sys_bc := bc', sys_lock := request_of AutoFlusher r,
                      sys_auto := AutoSelect\<rparr>)) else None)"
| "exec s LAutoExit =
     (if \<not> sys_panicked s \<and> sys_auto s = AutoSelect \<and> \<not> holds_lock AutoFlusher s \<and>
         bc_cancelled (sys_bc s)
      then Some (s\<lparr>sys_auto := AutoExited\<rparr>) else None)"
| "exec s LCancel =
     (if \<not> sys_panicked s \<and> (sys_close s = CloseIdle \<or> sys_close s = CloseReturned)
      then Some (s\<lparr>sys_bc := (sys_bc s)\<lparr>bc_cancelled := True\<rparr>, sys_close := CloseCancelled\<rparr>)
      else None)"
| "exec s (LCloseFlush d) =
     (if \<not> sys_panicked s \<and> sys_close s = CloseCancelled \<and> sys_lock s = None
      then (case flush d (sys_bc s) of (bc', r, _) \<Rightarrow>
              Some (s\<lparr>sys_bc := bc', sys_lock := request_of Closer r,
                      sys_close := CloseFlushed\<rparr>)) else None)"
| "exec s LCloseQueue =
     (if \<not> sys_panicked s \<and> sys_close s = CloseFlushed \<and> \<not> holds_lock Closer s
      then Some (s\<lparr>sys_bc := (sys_bc s)\<lparr>bc_queueClosed := True\<rparr>, sys_close := CloseWaiting\<rparr>)
      else None)"
| "exec s LCloseDone =
     (if \<not> sys_panicked s \<and> sys_close s = CloseWaiting \<and> sys_worker s = WorkerExited \<and>
         bc_pendingSends (sys_bc s) = 0 \<and> sys_auto s = AutoExited
      then Some (s\<lparr>sys_close := CloseReturned\<rparr>) else None)"
| "exec s LCloseTimeout =
     (if \<not> sys_panicked s \<and> sys_close s = CloseWaiting
      then Some (s\<lparr>sys_close := CloseReturned\<rparr>) else None)"
| "exec s LDequeue =
     (if \<not> sys_panicked s \<and> sys_worker s = WorkerIdle
      then (case bc_sendQueue (sys_bc s) of [] \<Rightarrow> None
            | r # q \<Rightarrow> Some (s\<lparr>sys_bc := (sys_bc s)\<lparr>bc_sendQueue := q\<rparr>,
                               sys_worker := WorkerSending r\<rparr>)) else None)"
| "exec s LSent =
     (case sys_worker s of
        WorkerSending r \<Rightarrow> if sys_panicked s then None else
          Some (s\<lparr>sys_bc := (sys_bc s)\<lparr>bc_pendingSends := bc_pendingSends (sys_bc s) - 1\<rparr>,
                  sys_worker := WorkerIdle, sys_sent := sys_sent s @ [r]\<rparr>)
      | _ \<Rightarrow> None)"
| "exec s LWorkerExit =
     (if \<not> sys_panicked s \<and> sys_worker s = WorkerIdle \<and> bc_sendQueue (sys_bc s) = [] \<and>
         bc_queueClosed (sys_bc s)
      then Some (s\<lparr>sys_worker := WorkerExited\<rparr>) else None)"

fun exec_run :: "system \<Rightarrow> label list \<Rightarrow> system option" where
  "exec_run s [] = Some s"
| "exec_run s (l # ls) = (case exec s l of None \<Rightarrow> None | Some s' \<Rightarrow> exec_run s' ls)"

lemma exec_cstep: "exec s l = Some s' \<longleftrightarrow> cstep s l s'"
proof
  assume "exec s l = Some s'"
  then show "cstep s l s'"
    by (cases l)
       (auto intro: cstep.intros split: if_splits option.splits prod.splits chan_outcome.splits
         list.splits worker_pc.splits)
next
  assume "cstep s l s'"
  then show "exec s l = Some s'" by cases auto
qed

lemma crun_append: "crun s xs s' \<Longrightarrow> crun s' ys s'' \<Longrightarrow> crun s (xs @ ys) s''"
  by (rotate_tac 1, induction rule: crun.induct) (simp, metis append_assoc crun_snoc)

lemma crun_single: "cstep s l s' \<Longrightarrow> crun s [l] s'"
  using crun_snoc[OF crun_Nil] by fastforce

lemma exec_run_crun: "exec_run s ls = Some s' \<Longrightarrow> crun s ls s'"
proof (induction ls arbitrary: s)
  case (Cons l ls)
  then obtain s1 where "cstep s l s1" "exec_run s1 ls = Some s'"
    by (auto simp: exec_cstep[symmetric] split: option.splits)
  with Cons.IH crun_append[OF crun_single] show ?case by fastforce
qed (simp add: crun_Nil)

subsection \<open>Equations of flush and Add\<close>

lemma flush_cases:
  obtains (empty) "bc_events bc = []" "flush d bc = (bc, None, [])"
  | (full) ms where "bc_events bc \<noteq> []"
      "flush d bc = (bc\<lparr>bc_sequence := bc_sequence bc + 1, bc_events := [],
                       bc_pendingSends := bc_pendingSends bc + 1\<rparr>,
         Some \<lparr>req_batch = bc_events bc, req_seq = bc_sequence bc + 1\<rparr>, ms)"
  by (cases "bc_events bc = []") (simp_all add: flush_def Let_def)

lemma BC_Add_eq:
  "BC_Add d bc e =
     (let bc1 = bc\<lparr>bc_events := bc_events bc @ [e]\<rparr>;
          ms1 = SetCollectorPoolSize (int (length (bc_events bc1)))
      in if int (length (bc_events bc)) + 1 \<ge> bc_maxSize bc
         then (bc1\<lparr>bc_sequence := bc_sequence bc + 1, bc_events := [],
                   bc_pendingSends := bc_pendingSends bc + 1\<rparr>,
               Some \<lparr>req_batch = bc_events bc @ [e], req_seq = bc_sequence bc + 1\<rparr>,
               ms1 @ SetCollectorPoolSize 0 @ RecordCollectorFlush d)
         else (bc1, None, ms1))"
  by (simp add: BC_Add_def flush_def Let_def)

subsection \<open>What is on its way\<close>

definition worker_load :: "system \<Rightarrow> sendRequest list" where
  "worker_load s = (case sys_worker s of WorkerSending r \<Rightarrow> [r] | _ \<Rightarrow> [])"

definition lock_load :: "system \<Rightarrow> sendRequest list" where
  "lock_load s = (case sys_lock s of None \<Rightarrow> [] | Some (_, r) \<Rightarrow> [r])"

definition outstanding :: "system \<Rightarrow> sendRequest list" where
  "outstanding s = worker_load s @ bc_sendQueue (sys_bc s) @ lock_load s"

definition stream :: "system \<Rightarrow> sendRequest list" where
  "stream s = sys_sent s @ outstanding s"

text \<open>All events the collector has taken, in order: those in requests and those buffered.\<close>

definition received_events :: "system \<Rightarrow> TDCEvent list" where
  "received_events s = concat (map req_batch (stream s)) @ bc_events (sys_bc s)"

lemmas stream_defs = stream_def outstanding_def worker_load_def lock_load_def

fun adds :: "label list \<Rightarrow> TDCEvent list" where
  "adds [] = []"
| "adds (LAdd d e # ls) = e # adds ls"
| "adds (_ # ls) = adds ls"

lemma adds_append: "adds (xs @ ys) = adds xs @ adds ys"
  by (induction xs rule: adds.induct) simp_all

text \<open>Only the three flushes extend the stream of requests; every other step moves it along.\<close>

inductive_simps cstep_simps:
  "cstep s (LAdd d e) s'" "cstep s (LAutoFlush d) s'" "cstep s (LCloseFlush d) s'"

definition flushes :: "label \<Rightarrow> bool" where
  "flushes l = (case l of LAdd _ _ \<Rightarrow> True | LAutoFlush _ \<Rightarrow> True | LCloseFlush _ \<Rightarrow> True | _ \<Rightarrow> False)"

lemma cstep_moves:
  assumes "cstep s l s'" and "\<not> flushes l"
  shows "stream s' = stream s \<and> bc_events (sys_bc s') = bc_events (sys_bc s) \<and>
    bc_sequence (sys_bc s') = bc_sequence (sys_bc s)"
  using assms
  by cases (auto simp: stream_defs send_on_queue_def flushes_def split: if_splits)

lemma cstep_flushes:
  assumes "cstep s l s'" and "flushes l"
  shows "(stream s' = stream s \<and> bc_sequence (sys_bc s') = bc_sequence (sys_bc s) \<and>
      bc_events (sys_bc s') = bc_events (sys_bc s) @ adds [l]) \<or>
    (\<exists>r. stream s' = stream s @ [r] \<and> bc_events (sys_bc s') = [] \<and>
      req_batch r = bc_events (sys_bc s) @ adds [l] \<and> req_batch r \<noteq> [] \<and>
      req_seq r = bc_sequence (sys_bc s) + 1 \<and>
      bc_sequence (sys_bc s') = bc_sequence (sys_bc s) + 1)"
  using assms(1)
proof cases
  case (add d e bc' r ms)
  then show ?thesis
    by (auto simp: BC_Add_eq Let_def stream_defs split: if_splits)
next
  case (auto_flush d bc' r ms)
  then show ?thesis
    by (cases rule: flush_cases[where bc = "sys_bc s" and d = d]) (auto simp: stream_defs)
next
  case (close_flush d bc' r ms)
  then show ?thesis
    by (cases rule: flush_cases[where bc = "sys_bc s" and d = d]) (auto simp: stream_defs)
qed (use assms(2) in \<open>auto simp: flushes_def\<close>)

lemma adds_not_flushes: "\<not> flushes l \<Longrightarrow> adds [l] = []"
  by (cases l) (simp_all add: flushes_def)

text \<open>Conservation: no step loses, duplicates or reorders an event.\<close>

lemma cstep_received: "cstep s l s' \<Longrightarrow> received_events s' = received_events s @ adds [l]"
  using cstep_moves[of s l s'] cstep_flushes[of s l s']
  by (cases "flushes l") (auto simp: received_events_def adds_not_flushes)

lemma crun_received: "crun s ls s' \<Longrightarrow> received_events s' = received_events s @ adds ls"
  by (induction rule: crun.induct) (simp_all add: cstep_received adds_append)

subsection \<open>Invariant\<close>

definition batch_ok :: "int \<Rightarrow> sendRequest \<Rightarrow> bool" where
  "batch_ok m r \<longleftrightarrow> req_batch r \<noteq> [] \<and> int (length (req_batch r)) \<le> max 1 m"

definition numbered :: "nat \<Rightarrow> u32 list" where
  "numbered n = map (\<lambda>i. word_of_nat (Suc i)) [0..<n]"

definition stream_inv :: "system \<Rightarrow> bool" where
  "stream_inv s \<longleftrightarrow>
     int (length (bc_events (sys_bc s))) < max 1 (bc_maxSize (sys_bc s)) \<and>
     list_all (batch_ok (bc_maxSize (sys_bc s))) (stream s) \<and>
     map req_seq (stream s) = numbered (length (stream s)) \<and>
     bc_sequence (sys_bc s) = word_of_nat (length (stream s))"

definition queue_inv :: "system \<Rightarrow> bool" where
  "queue_inv s \<longleftrightarrow>
     0 < bc_queueCap (sys_bc s) \<and>
     int (length (bc_sendQueue (sys_bc s))) \<le> bc_queueCap (sys_bc s) \<and>
     bc_pendingSends (sys_bc s) = int (length (outstanding s)) \<and>
     (sys_worker s = WorkerExited \<longrightarrow> bc_queueClosed (sys_bc s) \<and> bc_sendQueue (sys_bc s) = [])"

lemma cstep_config:
  "cstep s l s' \<Longrightarrow> bc_maxSize (sys_bc s') = bc_maxSize (sys_bc s) \<and>
     bc_queueCap (sys_bc s') = bc_queueCap (sys_bc s)"
  by (erule cstep.cases)
     (auto simp: BC_Add_eq flush_def Let_def send_on_queue_def split: if_splits)

lemma crun_config:
  "crun s ls s' \<Longrightarrow> bc_maxSize (sys_bc s') = bc_maxSize (sys_bc s) \<and>
     bc_queueCap (sys_bc s') = bc_queueCap (sys_bc s)"
  by (induction rule: crun.induct) (auto dest: cstep_config)

lemma numbered_Suc: "numbered (Suc n) = numbered n @ [word_of_nat n + 1]"
  by (simp add: numbered_def add.commute)

lemma cstep_buffer_bound:
  assumes "cstep s l s'" and "int (length (bc_events (sys_bc s))) < max 1 (bc_maxSize (sys_bc s))"
  shows "int (length (bc_events (sys_bc s'))) < max 1 (bc_maxSize (sys_bc s)) \<and>
    int (length (bc_events (sys_bc s) @ adds [l])) \<le> max 1 (bc_maxSize (sys_bc s))"
  using assms
  by cases (auto simp: BC_Add_eq flush_def Let_def send_on_queue_def split: if_splits)

lemma cstep_stream_inv:
  assumes "cstep s l s'" and "stream_inv s"
  shows "stream_inv s'"
proof (cases "flushes l")
  case False
  with assms cstep_moves[OF assms(1)] cstep_config[OF assms(1)] show ?thesis
    by (simp add: stream_inv_def)
next
  case True
  from assms(2) have inv: "int (length (bc_events (sys_bc s))) < max 1 (bc_maxSize (sys_bc s))"
    "list_all (batch_ok (bc_maxSize (sys_bc s))) (stream s)"
    "map req_seq (stream s) = numbered (length (stream s))"
    "bc_sequence (sys_bc s) = word_of_nat (length (stream s))"
    by (simp_all add: stream_inv_def)
  from cstep_flushes[OF assms(1) True] show ?thesis
  proof (elim disjE exE conjE)
    assume "stream s' = stream s" "bc_sequence (sys_bc s') = bc_sequence (sys_bc s)"
    with inv cstep_buffer_bound[OF assms(1) inv(1)] cstep_config[OF assms(1)] show ?thesis
      by (simp add: stream_inv_def)
  next
    fix r
    assume "stream s' = stream s @ [r]" "bc_events (sys_bc s') = []"
      "req_batch r = bc_events (sys_bc s) @ adds [l]" "req_batch r \<noteq> []"
      "req_seq r = bc_sequence (sys_bc s) + 1"
      "bc_sequence (sys_bc s') = bc_sequence (sys_bc s) + 1"
    with inv cstep_buffer_bound[OF assms(1) inv(1)] cstep_config[OF assms(1)] show ?thesis
      by (simp add: stream_inv_def batch_ok_def numbered_Suc)
  qed
qed

lemma cstep_queue_inv: "cstep s l s' \<Longrightarrow> queue_inv s \<Longrightarrow> queue_inv s'"
  by (erule cstep.cases)
     (auto simp: queue_inv_def outstanding_def worker_load_def lock_load_def BC_Add_eq flush_def
       Let_def send_on_queue_def split: if_splits)

lemma new_collector_inv:
  assumes "NewBatchCollectorWithFlush m fi = Some bc"
  shows "stream_inv (init_system bc) \<and> queue_inv (init_system bc) \<and> bc_maxSize bc = m \<and>
    received_events (init_system bc) = []"
  using assms
  by (auto simp: NewBatchCollectorWithFlush_def stream_inv_def queue_inv_def init_system_def
      stream_defs numbered_def maxInt_def received_events_def split: if_splits)

lemma crun_inv:
  "crun s ls s' \<Longrightarrow> stream_inv s \<Longrightarrow> queue_inv s \<Longrightarrow> stream_inv s' \<and> queue_inv s'"
  by (induction rule: crun.induct) (auto intro: cstep_stream_inv cstep_queue_inv)

subsection \<open>Progress\<close>

text \<open>
  The steps that deliver what is outstanding need no new event, timer or call; each brings the
  measure down by exactly one.
\<close>

definition drain_steps :: "label set" where
  "drain_steps = {LEnqueue, LDequeue, LSent}"

definition drain_measure :: "system \<Rightarrow> nat" where
  "drain_measure s =
     length (worker_load s) + 2 * length (bc_sendQueue (sys_bc s)) + 3 * length (lock_load s)"

lemma drain_decreases:
  "cstep s l s' \<Longrightarrow> l \<in> drain_steps \<Longrightarrow> Suc (drain_measure s') = drain_measure s"
  by (erule cstep.cases)
     (auto simp: drain_steps_def drain_measure_def worker_load_def lock_load_def send_on_queue_def
       split: if_splits)

lemma drain_measure_0: "drain_measure s = 0 \<longleftrightarrow> outstanding s = []"
  by (simp add: drain_measure_def outstanding_def)

text \<open>Unless a send would hit the closed queue, one of them is enabled: no deadlock.\<close>

lemma drain_enabled:
  assumes "queue_inv s" and "\<not> sys_panicked s" and "outstanding s \<noteq> []"
    and "sys_lock s = None \<or> \<not> bc_queueClosed (sys_bc s)"
  shows "\<exists>l \<in> drain_steps. \<exists>s'. cstep s l s'"
proof (cases "sys_worker s")
  case (WorkerSending r)
  with sent[OF assms(2) this] show ?thesis by (auto simp: drain_steps_def)
next
  case WorkerIdle
  show ?thesis
  proof (cases "bc_sendQueue (sys_bc s)")
    case (Cons r q)
    with dequeue[OF assms(2) WorkerIdle this] show ?thesis by (auto simp: drain_steps_def)
  next
    case Nil
    with WorkerIdle assms(3) obtain a r where lock: "sys_lock s = Some (a, r)"
      by (auto simp: outstanding_def worker_load_def lock_load_def split: option.splits)
    with Nil assms obtain bc' where "send_on_queue (sys_bc s) r = ChanSent bc'"
      by (auto simp: send_on_queue_def queue_inv_def)
    from enqueue[OF assms(2) lock this] show ?thesis by (auto simp: drain_steps_def)
  qed
next
  case WorkerExited
  with assms have "bc_queueClosed (sys_bc s)" "bc_sendQueue (sys_bc s) = []"
    by (auto simp: queue_inv_def)
  with assms WorkerExited show ?thesis
    by (auto simp: outstanding_def worker_load_def lock_load_def)
qed

lemma drain_keeps:
  assumes "cstep s l s'" and "l \<in> drain_steps"
  shows "\<not> sys_panicked s' \<and> bc_queueClosed (sys_bc s') = bc_queueClosed (sys_bc s) \<and>
    (sys_lock s' = None \<or> sys_lock s' = sys_lock s)"
  using assms by cases (auto simp: drain_steps_def send_on_queue_def split: if_splits)

lemma drain_completes:
  assumes "queue_inv s" and "\<not> sys_panicked s"
    and "sys_lock s = None \<or> \<not> bc_queueClosed (sys_bc s)"
  shows "\<exists>ls s'. crun s ls s' \<and> set ls \<subseteq> drain_steps \<and> length ls = drain_measure s \<and>
    sys_sent s' = stream s \<and> outstanding s' = []"
  using assms
proof (induction "drain_measure s" arbitrary: s)
  case 0
  then show ?case
    using drain_measure_0[of s] by (intro exI[of _ "[]"] exI[of _ s]) (auto simp: crun_Nil stream_def)
next
  case (Suc n)
  then have "outstanding s \<noteq> []" using drain_measure_0[of s] by auto
  with drain_enabled Suc.prems obtain l s1 where l: "l \<in> drain_steps" "cstep s l s1" by blast
  have "n = drain_measure s1" using drain_decreases[OF l(2,1)] Suc.hyps(2) by simp
  moreover have "queue_inv s1" using cstep_queue_inv[OF l(2)] Suc.prems(1) by simp
  ultimately obtain ls s2 where run: "crun s1 ls s2" "set ls \<subseteq> drain_steps" "length ls = n"
    "sys_sent s2 = stream s1" "outstanding s2 = []"
    using Suc.hyps(1)[of s1] drain_keeps[OF l(2,1)] Suc.prems(3) by auto
  have "stream s1 = stream s"
    using cstep_moves[OF l(2)] l(1) by (auto simp: drain_steps_def flushes_def)
  with run l crun_append[OF crun_single[OF l(2)] run(1)] Suc.hyps(2) show ?case
    by (intro exI[of _ "l # ls"] exI[of _ s2]) auto
qed

subsection \<open>Closing\<close>

text \<open>
  A run is quiet when no event is added after the flush of \<open>Close\<close>: the way the gateway shuts
  down, disconnecting the message source first.
\<close>

definition is_close_flush :: "label \<Rightarrow> bool" where
  "is_close_flush l = (case l of LCloseFlush _ \<Rightarrow> True | _ \<Rightarrow> False)"

definition is_add :: "label \<Rightarrow> bool" where
  "is_add l = (case l of LAdd _ _ \<Rightarrow> True | _ \<Rightarrow> False)"

definition quiet :: "label list \<Rightarrow> bool" where
  "quiet ls \<longleftrightarrow> list_all (\<lambda>l. \<not> is_add l) (dropWhile (\<lambda>l. \<not> is_close_flush l) ls)"

definition closing :: "label list \<Rightarrow> bool" where
  "closing ls \<longleftrightarrow> list_ex is_close_flush ls"

lemma quiet_snoc: "quiet (ls @ [l]) \<longleftrightarrow> quiet ls \<and> (closing ls \<longrightarrow> \<not> is_add l)"
proof (cases "closing ls")
  case True
  then have "dropWhile (\<lambda>l. \<not> is_close_flush l) (ls @ [l]) =
      dropWhile (\<lambda>l. \<not> is_close_flush l) ls @ [l]"
    by (auto simp: closing_def list_ex_iff intro: dropWhile_append1)
  with True show ?thesis by (simp add: quiet_def)
next
  case False
  then have "\<forall>x \<in> set ls. \<not> is_close_flush x" by (simp add: closing_def list_ex_iff)
  then have "dropWhile (\<lambda>l. \<not> is_close_flush l) ls = []"
    and "dropWhile (\<lambda>l. \<not> is_close_flush l) (ls @ [l]) =
      dropWhile (\<lambda>l. \<not> is_close_flush l) [l]"
    by (simp_all add: dropWhile_append2)
  note eqs = this
  show ?thesis
    unfolding quiet_def eqs using False by (cases l) (simp_all add: is_add_def is_close_flush_def)
qed

lemma closing_snoc: "closing (ls @ [l]) \<longleftrightarrow> closing ls \<or> is_close_flush l"
  by (simp add: closing_def)

definition close_inv :: "bool \<Rightarrow> system \<Rightarrow> bool" where
  "close_inv c s \<longleftrightarrow> \<not> sys_panicked s \<and>
     (if c then bc_events (sys_bc s) = [] \<and>
        (sys_lock s = None \<or>
         holds_lock Closer s \<and> sys_close s = CloseFlushed \<and> \<not> bc_queueClosed (sys_bc s))
      else \<not> bc_queueClosed (sys_bc s) \<and> sys_close s \<in> {CloseIdle, CloseCancelled} \<and>
        \<not> holds_lock Closer s)"

lemma cstep_close_inv:
  assumes "cstep s l s'" and "close_inv c s" and "c \<longrightarrow> \<not> is_add l"
  shows "close_inv (c \<or> is_close_flush l) s'"
  using assms
proof cases
  case (close_flush d bc' r ms)
  with assms show ?thesis
    by (cases rule: flush_cases[where bc = "sys_bc s" and d = d])
       (auto simp: close_inv_def holds_lock_def is_close_flush_def split: if_splits)
next
  case (auto_flush d bc' r ms)
  with assms show ?thesis
    by (cases rule: flush_cases[where bc = "sys_bc s" and d = d])
       (auto simp: close_inv_def holds_lock_def is_close_flush_def split: if_splits)
qed (auto simp: close_inv_def holds_lock_def is_close_flush_def is_add_def BC_Add_eq Let_def
      send_on_queue_def split: if_splits option.splits)

lemma crun_close_inv:
  assumes "crun (init_system bc) ls s" and "quiet ls"
    and "\<not> bc_queueClosed bc"
  shows "close_inv (closing ls) s"
proof -
  have "crun s0 ls s \<Longrightarrow> s0 = init_system bc \<Longrightarrow> quiet ls \<Longrightarrow> close_inv (closing ls) s" for s0
  proof (induction rule: crun.induct)
    case (crun_Nil s)
    with assms(3) show ?case by (simp add: close_inv_def closing_def init_system_def holds_lock_def)
  next
    case (crun_snoc s ls s' l s'')
    then show ?case
      using cstep_close_inv[of s' l s'' "closing ls"] by (simp add: quiet_snoc closing_snoc)
  qed
  with assms show ?thesis by blast
qed

lemma crun_snocE:
  assumes "crun s (ls @ [l]) s''"
  obtains s' where "crun s ls s'" and "cstep s' l s''"
  using assms by (cases rule: crun.cases) auto

text \<open>
  When \<open>Close\<close> returns because the wait is over, and not because of its timeout, everything
  that was added has been passed to the sender, in order and in numbered batches.
\<close>

lemma close_done_delivers:
  assumes new: "NewBatchCollectorWithFlush m fi = Some bc"
    and run: "crun (init_system bc) (ls @ [LCloseDone]) s" and "quiet ls"
  shows "concat (map req_batch (sys_sent s)) = adds ls \<and>
    map req_seq (sys_sent s) = numbered (length (sys_sent s)) \<and>
    list_all (batch_ok m) (sys_sent s)"
proof -
  from run obtain s' where r: "crun (init_system bc) ls s'" "cstep s' LCloseDone s"
    by (rule crun_snocE)
  have start: "stream_inv (init_system bc)" "queue_inv (init_system bc)" "bc_maxSize bc = m"
    "received_events (init_system bc) = []"
    using new_collector_inv[OF new] by auto
  have inv: "stream_inv s'" "queue_inv s'" using crun_inv[OF r(1) start(1,2)] by auto
  have size: "bc_maxSize (sys_bc s') = m"
    using crun_config[OF r(1)] start(3) by (simp add: init_system_def)
  have "\<not> bc_queueClosed bc"
    using new by (auto simp: NewBatchCollectorWithFlush_def split: if_splits)
  then have ci: "close_inv (closing ls) s'" using crun_close_inv[OF r(1) assms(3)] by simp
  from r(2) have wait: "sys_close s' = CloseWaiting" "bc_pendingSends (sys_bc s') = 0"
    and sent: "sys_sent s = sys_sent s'"
    by (auto elim: cstepE)
  have "outstanding s' = []" using wait(2) inv(2) by (simp add: queue_inv_def)
  then have stream: "stream s' = sys_sent s" by (simp add: stream_def sent)
  have "bc_events (sys_bc s') = []"
    using ci wait(1) by (auto simp: close_inv_def split: if_splits)
  then have "concat (map req_batch (sys_sent s)) = adds ls"
    using crun_received[OF r(1)] start(4) stream by (simp add: received_events_def)
  with inv(1) stream size show ?thesis by (auto simp: stream_inv_def)
qed

text \<open>
  Closing terminates: after the queue is closed in a quiet run, draining steps, the exit of the
  send loop and of the auto-flush goroutine lead to the regular return.
\<close>

lemma auto_exits:
  assumes "\<not> sys_panicked s" and "bc_cancelled (sys_bc s)" and "sys_lock s = None"
    and "bc_events (sys_bc s) = []"
  shows "\<exists>ls. crun s ls (s\<lparr>sys_auto := AutoExited\<rparr>) \<and> set ls \<subseteq> {LAutoFlush 0, LAutoExit}"
proof -
  have exit: "cstep t LAutoExit (t\<lparr>sys_auto := AutoExited\<rparr>)"
    if "t = s\<lparr>sys_auto := AutoSelect\<rparr>" for t
    using auto_exit[of t] that assms by (simp add: holds_lock_def)
  show ?thesis
  proof (cases "sys_auto s")
    case AutoSelect
    then have "s\<lparr>sys_auto := AutoSelect\<rparr> = s" by simp
    with exit[OF refl] show ?thesis by (intro exI[of _ "[LAutoExit]"]) (auto intro: crun_single)
  next
    case AutoFired
    have eq: "s\<lparr>sys_lock := None, sys_auto := AutoSelect\<rparr> = s\<lparr>sys_auto := AutoSelect\<rparr>"
      using assms(3) by simp
    have "cstep s (LAutoFlush 0) (s\<lparr>sys_lock := None, sys_auto := AutoSelect\<rparr>)"
      using auto_flush[of s 0 "sys_bc s" None "[]"] AutoFired assms by (simp add: flush_def)
    then have "cstep s (LAutoFlush 0) (s\<lparr>sys_auto := AutoSelect\<rparr>)" unfolding eq .
    from crun_append[OF crun_single[OF this] crun_single[OF exit[OF refl]]] show ?thesis
      by (intro exI[of _ "[LAutoFlush 0, LAutoExit]"]) simp
  next
    case AutoExited
    then have "s\<lparr>sys_auto := AutoExited\<rparr> = s" by simp
    then show ?thesis by (intro exI[of _ "[]"]) (simp add: crun_Nil)
  qed
qed

lemma adds_Nil: "\<forall>l \<in> set ls. \<not> is_add l \<Longrightarrow> adds ls = []"
  by (induction ls rule: adds.induct) (auto simp: is_add_def)

lemma drain_close_frame:
  assumes "crun s ls s'" and "set ls \<subseteq> drain_steps"
  shows "sys_close s' = sys_close s \<and> bc_cancelled (sys_bc s') = bc_cancelled (sys_bc s) \<and>
    bc_queueClosed (sys_bc s') = bc_queueClosed (sys_bc s) \<and>
    bc_events (sys_bc s') = bc_events (sys_bc s) \<and> (sys_panicked s' = sys_panicked s) \<and>
    (sys_lock s = None \<longrightarrow> sys_lock s' = None)"
  using assms
proof (induction rule: crun.induct)
  case (crun_snoc s ls s' l s'')
  then have "l \<in> drain_steps" by simp
  with crun_snoc.hyps(2) have "sys_close s'' = sys_close s' \<and>
    bc_cancelled (sys_bc s'') = bc_cancelled (sys_bc s') \<and>
    bc_queueClosed (sys_bc s'') = bc_queueClosed (sys_bc s') \<and>
    bc_events (sys_bc s'') = bc_events (sys_bc s') \<and> (sys_panicked s'' = sys_panicked s') \<and>
    (sys_lock s' = None \<longrightarrow> sys_lock s'' = None)"
    by cases (auto simp: drain_steps_def send_on_queue_def split: if_splits)
  with crun_snoc show ?case by simp
qed simp

lemma close_completes:
  assumes "queue_inv s" and "\<not> sys_panicked s" and "sys_close s = CloseWaiting"
    and "bc_queueClosed (sys_bc s)" and "bc_cancelled (sys_bc s)"
    and "sys_lock s = None" and "bc_events (sys_bc s) = []"
  shows "\<exists>ls s'. crun s (ls @ [LCloseDone]) s' \<and> adds ls = [] \<and> sys_sent s' = stream s"
proof -
  obtain ls1 s1 where r1: "crun s ls1 s1" "set ls1 \<subseteq> drain_steps" "sys_sent s1 = stream s"
    "outstanding s1 = []"
    using drain_completes[OF assms(1,2)] assms(6) by auto
  have f1: "sys_close s1 = CloseWaiting" "bc_cancelled (sys_bc s1)" "bc_queueClosed (sys_bc s1)"
    "bc_events (sys_bc s1) = []" "\<not> sys_panicked s1" "sys_lock s1 = None"
    using drain_close_frame[OF r1(1,2)] assms by auto
  have q1: "queue_inv s1"
    using r1(1) assms(1) by (induction rule: crun.induct) (auto intro: cstep_queue_inv)
  obtain ls2 where r2: "crun s1 ls2 (s1\<lparr>sys_auto := AutoExited\<rparr>)"
    "set ls2 \<subseteq> {LAutoFlush 0, LAutoExit}"
    using auto_exits[OF f1(5,2,6,4)] by blast
  let ?s2 = "s1\<lparr>sys_auto := AutoExited\<rparr>" and ?s3 = "s1\<lparr>sys_auto := AutoExited, sys_worker := WorkerExited\<rparr>"
  have "\<exists>ls3. crun ?s2 ls3 ?s3 \<and> set ls3 \<subseteq> {LWorkerExit}"
  proof (cases "sys_worker s1")
    case WorkerIdle
    with r1(4) f1 have "cstep ?s2 LWorkerExit ?s3"
      using worker_exit[of ?s2] by (simp add: outstanding_def)
    then show ?thesis by (intro exI[of _ "[LWorkerExit]"]) (simp add: crun_single)
  next
    case (WorkerSending r)
    with r1(4) show ?thesis by (simp add: outstanding_def worker_load_def)
  next
    case WorkerExited
    then have "?s3 = ?s2" by simp
    then show ?thesis by (intro exI[of _ "[]"]) (simp add: crun_Nil)
  qed
  then obtain ls3 where r3: "crun ?s2 ls3 ?s3" "set ls3 \<subseteq> {LWorkerExit}" by blast
  have "cstep ?s3 LCloseDone (?s3\<lparr>sys_close := CloseReturned\<rparr>)"
    using f1 q1 r1(4) by (intro close_done) (simp_all add: queue_inv_def)
  then have "crun s ((ls1 @ ls2 @ ls3) @ [LCloseDone]) (?s3\<lparr>sys_close := CloseReturned\<rparr>)"
    using r1(1) r2(1) r3(1) by (metis crun_append crun_snoc)
  moreover have "adds (ls1 @ ls2 @ ls3) = []"
    using r1(2) r2(2) r3(2) by (intro adds_Nil) (auto simp: is_add_def drain_steps_def)
  moreover have "sys_sent (?s3\<lparr>sys_close := CloseReturned\<rparr>) = stream s" using r1(3) by simp
  ultimately show ?thesis by blast
qed

text \<open>Where \<open>Close\<close> stands says what is cancelled and closed; neither is ever undone.\<close>

definition close_state :: "system \<Rightarrow> bool" where
  "close_state s \<longleftrightarrow>
     (sys_close s \<in> {CloseWaiting, CloseReturned} \<longrightarrow> bc_queueClosed (sys_bc s)) \<and>
     (sys_close s \<noteq> CloseIdle \<longrightarrow> bc_cancelled (sys_bc s))"

lemma flush_flags:
  "flush d bc = (bc', r, ms) \<Longrightarrow>
     bc_queueClosed bc' = bc_queueClosed bc \<and> bc_cancelled bc' = bc_cancelled bc"
  by (cases rule: flush_cases[where bc = bc and d = d]) auto

lemma cstep_close_state: "cstep s l s' \<Longrightarrow> close_state s \<Longrightarrow> close_state s'"
  by (erule cstep.cases)
     (auto simp: close_state_def BC_Add_eq Let_def send_on_queue_def dest: flush_flags split: if_splits)

lemma crun_close_state: "crun (init_system bc) ls s \<Longrightarrow> close_state s"
proof -
  have "crun s0 ls s \<Longrightarrow> close_state s0 \<Longrightarrow> close_state s" for s0
    by (induction rule: crun.induct) (auto intro: cstep_close_state)
  moreover have "close_state (init_system bc)" by (simp add: close_state_def init_system_def)
  ultimately show "crun (init_system bc) ls s \<Longrightarrow> close_state s" by blast
qed

text \<open>
  Adding to a collector whose queue is closed: the events go into the buffer, and the one that
  fills it starts a send on the closed queue.
\<close>

lemma closed_adds:
  assumes "\<not> sys_panicked s" and "sys_lock s = None" and "bc_queueClosed (sys_bc s)"
    and "int (length (bc_events (sys_bc s)) + length es) = max 1 (bc_maxSize (sys_bc s))"
    and "es \<noteq> []"
  shows "\<exists>s'. crun s (map (LAdd d) es) s' \<and> exec s' LEnqueue = None \<and> exec s' LPanic = Some (s'\<lparr>sys_panicked := True\<rparr>) \<and>
    sys_sent s' = sys_sent s \<and> lock_load s' = [\<lparr>req_batch = bc_events (sys_bc s) @ es, req_seq = bc_sequence (sys_bc s) + 1\<rparr>]"
  using assms
proof (induction es arbitrary: s)
  case (Cons e es)
  obtain bc' r ms where a: "BC_Add d (sys_bc s) e = (bc', r, ms)" by (cases "BC_Add d (sys_bc s) e") auto
  let ?s = "s\<lparr>sys_bc := bc', sys_lock := request_of Adder r\<rparr>"
  have st: "cstep s (LAdd d e) ?s" using add[OF Cons.prems(1,2) a] .
  show ?case
  proof (cases "es = []")
    case True
    with Cons.prems(4) have full: "int (length (bc_events (sys_bc s))) + 1 \<ge> bc_maxSize (sys_bc s)" by simp
    with a have "r = Some \<lparr>req_batch = bc_events (sys_bc s) @ [e], req_seq = bc_sequence (sys_bc s) + 1\<rparr>"
      "bc_queueClosed bc'"
      using Cons.prems(3) by (auto simp: BC_Add_eq Let_def)
    with crun_single[OF st] Cons.prems(1) True show ?thesis
      by (intro exI[of _ ?s]) (simp add: send_on_queue_def lock_load_def)
  next
    case False
    then obtain e' es' where "es = e' # es'" by (cases es) auto
    with Cons.prems(4) have "\<not> int (length (bc_events (sys_bc s))) + 1 \<ge> bc_maxSize (sys_bc s)" by auto
    with a have bc': "r = None" "bc' = (sys_bc s)\<lparr>bc_events := bc_events (sys_bc s) @ [e]\<rparr>"
      by (auto simp: BC_Add_eq Let_def)
    obtain s' where s': "crun ?s (map (LAdd d) es) s'" "exec s' LEnqueue = None"
      "exec s' LPanic = Some (s'\<lparr>sys_panicked := True\<rparr>)" "sys_sent s' = sys_sent s"
      "lock_load s' = [\<lparr>req_batch = bc_events (sys_bc s) @ e # es, req_seq = bc_sequence (sys_bc s) + 1\<rparr>]"
      using Cons.IH[of ?s] Cons.prems False by (auto simp: bc')
    with crun_append[OF crun_single[OF st] s'(1)] show ?thesis by (intro exI[of _ s']) simp
  qed
qed simp

subsection \<open>The collector behind the message handler\<close>

text \<open>
  The collector as the handler's \<open>Collector\<close>: \<open>Add\<close> is the step of a caller that finds the mutex
  free, \<open>IncrementDropped\<close> goes to the sender.
\<close>

definition collector_sink :: "'f BatchSender option \<Rightarrow> int \<Rightarrow> (system \<times> 'f) Collector" where
  "collector_sink forwarder d =
     \<lparr>coll_Add = (\<lambda>(s, f) event.
        case BC_Add d (sys_bc s) event of
          (bc', req, ms) \<Rightarrow> ((s\<lparr>sys_bc := bc', sys_lock := request_of Adder req\<rparr>, f), ms)),
      coll_IncrementDropped = (\<lambda>(s, f) count.
        case BC_IncrementDropped forwarder f count of (f', ms) \<Rightarrow> ((s, f'), ms))\<rparr>"

lemma collector_sink_add:
  assumes "\<not> sys_panicked s" and "sys_lock s = None"
  shows "cstep s (LAdd d e) (fst (fst (coll_Add (collector_sink fw d) (s, f) e)))"
  by (cases "BC_Add d (sys_bc s) e") (simp add: collector_sink_def add[OF assms])

lemma collector_sink_add_log:
  "log_ok (snd (coll_Add (collector_sink fw d) sf e))"
  "m \<in> {MQTTInboundMessages, EventsProcessed, EventsDropped} \<Longrightarrow>
     counter_total m (snd (coll_Add (collector_sink fw d) sf e)) = 0"
  by (auto simp: collector_sink_def BC_Add_eq Let_def case_prod_beta record_defs log_ok_def)

subsection \<open>Properties\<close>

text \<open>C3: Conservation under every interleaving of adders, timer, send loop and \<open>Close\<close>: the events of
  the requests sent, queued or waiting to be queued, followed by the buffered ones, are exactly
  the events added, in order; the requests are numbered consecutively from 1 (modulo 2^32), each
  holds at least one event and at most the maximum size, and the queue stays within its capacity.\<close>

theorem collector_conserves_events:
  assumes "NewBatchCollectorWithFlush m fi = Some bc" and "crun (init_system bc) ls s"
  shows "concat (map req_batch (sys_sent s @ outstanding s)) @ bc_events (sys_bc s) = adds ls \<and>
    map req_seq (sys_sent s @ outstanding s) =
      map (\<lambda>i. word_of_nat (Suc i)) [0..<length (sys_sent s @ outstanding s)] \<and>
    list_all (\<lambda>r. req_batch r \<noteq> [] \<and> int (length (req_batch r)) \<le> max 1 m) (sys_sent s @ outstanding s) \<and>
    int (length (bc_sendQueue (sys_bc s))) \<le> maxInt 1 (go_div m 2)"
proof -
  have start: "stream_inv (init_system bc)" "queue_inv (init_system bc)" "bc_maxSize bc = m"
    "received_events (init_system bc) = []"
    using new_collector_inv[OF assms(1)] by auto
  have cap: "bc_queueCap bc = maxInt 1 (go_div m 2)"
    using assms(1) by (auto simp: NewBatchCollectorWithFlush_def split: if_splits)
  have inv: "stream_inv s" "queue_inv s" using crun_inv[OF assms(2) start(1,2)] by auto
  have cfg: "bc_maxSize (sys_bc s) = m" "bc_queueCap (sys_bc s) = maxInt 1 (go_div m 2)"
    using crun_config[OF assms(2)] start(3) cap by (simp_all add: init_system_def)
  have b: "batch_ok m = (\<lambda>r. req_batch r \<noteq> [] \<and> int (length (req_batch r)) \<le> max 1 m)"
    by (simp add: batch_ok_def fun_eq_iff)
  show ?thesis
    using inv cfg crun_received[OF assms(2)] start(4)
    by (simp add: stream_inv_def queue_inv_def received_events_def stream_def numbered_def b)
qed

definition tdc :: "u64 \<Rightarrow> TDCEvent" where
  "tdc t = \<lparr>RpiTimestampUs = 0, Channel = 1, TdcTimestampPs = t, DeltaPs = None, Flags = None\<rparr>"

definition collector_of_size :: "int \<Rightarrow> BatchCollector" where
  "collector_of_size m = the (NewBatchCollectorWithFlush m 0)"

definition closing_run :: "label list" where
  "closing_run =
     [LAdd 0 (tdc 1), LAdd 0 (tdc 2), LEnqueue, LDequeue, LAdd 0 (tdc 3), LCancel, LSent,
      LCloseFlush 0, LEnqueue, LCloseQueue, LDequeue, LSent, LWorkerExit, LAutoExit]"

lemma closing_run_exec:
  "\<exists>s. exec_run (init_system (collector_of_size 2)) closing_run = Some s \<and>
     sys_sent s = [\<lparr>req_batch = [tdc 1, tdc 2], req_seq = 1\<rparr>, \<lparr>req_batch = [tdc 3], req_seq = 2\<rparr>] \<and>
     outstanding s = [] \<and> bc_events (sys_bc s) = [] \<and>
     exec s LCloseDone = Some (s\<lparr>sys_close := CloseReturned\<rparr>)"
  by (simp add: collector_of_size_def NewBatchCollectorWithFlush_def closing_run_def init_system_def
      BC_Add_eq flush_def Let_def send_on_queue_def maxInt_def go_div_def holds_lock_def outstanding_def
      worker_load_def lock_load_def)

lemma new_collector_of_size: "0 \<le> m \<Longrightarrow> NewBatchCollectorWithFlush m 0 = Some (collector_of_size m)"
  by (simp add: collector_of_size_def NewBatchCollectorWithFlush_def)

theorem collector_conserves_events_witness:
  "\<exists>s. sys_sent s = [\<lparr>req_batch = [tdc 1, tdc 2], req_seq = 1\<rparr>, \<lparr>req_batch = [tdc 3], req_seq = 2\<rparr>] \<and>
     concat (map req_batch (sys_sent s @ outstanding s)) @ bc_events (sys_bc s) = [tdc 1, tdc 2, tdc 3]"
proof -
  obtain s where s: "exec_run (init_system (collector_of_size 2)) closing_run = Some s"
    "sys_sent s = [\<lparr>req_batch = [tdc 1, tdc 2], req_seq = 1\<rparr>, \<lparr>req_batch = [tdc 3], req_seq = 2\<rparr>]"
    using closing_run_exec by blast
  have "adds closing_run = [tdc 1, tdc 2, tdc 3]" by (simp add: closing_run_def)
  with s collector_conserves_events[OF new_collector_of_size exec_run_crun[OF s(1)]] show ?thesis
    by (intro exI[of _ s]) simp
qed

text \<open>C4: When \<open>Close\<close> returns because the waiting is over, every event added before has been passed to
  the sender: the batches sent, in order, are the events added, provided nothing is added after
  the flush of \<open>Close\<close>.\<close>

theorem close_delivers_everything:
  assumes "NewBatchCollectorWithFlush m fi = Some bc"
    and "crun (init_system bc) (ls @ [LCloseDone]) s" and "quiet ls"
  shows "concat (map req_batch (sys_sent s)) = adds ls \<and>
    map req_seq (sys_sent s) = numbered (length (sys_sent s))"
  using close_done_delivers[OF assms] by blast

lemma quiet_closing_run: "quiet closing_run"
  by (simp add: quiet_def closing_run_def is_close_flush_def is_add_def)

theorem close_delivers_everything_witness:
  "\<exists>s. crun (init_system (collector_of_size 2)) (closing_run @ [LCloseDone]) s \<and>
     concat (map req_batch (sys_sent s)) = [tdc 1, tdc 2, tdc 3] \<and>
     map req_seq (sys_sent s) = numbered (length (sys_sent s))"
proof -
  obtain s where s: "exec_run (init_system (collector_of_size 2)) closing_run = Some s"
    "exec s LCloseDone = Some (s\<lparr>sys_close := CloseReturned\<rparr>)"
    using closing_run_exec by blast
  have r: "crun (init_system (collector_of_size 2)) (closing_run @ [LCloseDone]) (s\<lparr>sys_close := CloseReturned\<rparr>)"
    by (rule crun_snoc[OF exec_run_crun[OF s(1)] s(2)[unfolded exec_cstep]])
  have "adds closing_run = [tdc 1, tdc 2, tdc 3]" by (simp add: closing_run_def)
  with r close_delivers_everything[OF new_collector_of_size r quiet_closing_run] show ?thesis
    by (intro exI[of _ "s\<lparr>sys_close := CloseReturned\<rparr>"]) simp
qed

text \<open>C6: The collector never sends on its closed queue as long as no event is added after the flush of
  \<open>Close\<close>, however often \<open>Close\<close> is called and wherever the timer fires; and in every such state
  with something outstanding, one of the delivering steps is enabled.\<close>

theorem quiet_run_never_panics_or_deadlocks:
  assumes "NewBatchCollectorWithFlush m fi = Some bc" and "crun (init_system bc) ls s" and "quiet ls"
  shows "\<not> sys_panicked s \<and>
    (outstanding s = [] \<or> (\<exists>l \<in> {LEnqueue, LDequeue, LSent}. exec s l \<noteq> None))"
proof -
  have "\<not> bc_queueClosed bc"
    using assms(1) by (auto simp: NewBatchCollectorWithFlush_def split: if_splits)
  then have ci: "close_inv (closing ls) s" using crun_close_inv[OF assms(2,3)] by simp
  have q: "queue_inv s"
    using new_collector_inv[OF assms(1)] crun_inv[OF assms(2)] by blast
  have np: "\<not> sys_panicked s" using ci by (simp add: close_inv_def)
  have "sys_lock s = None \<or> \<not> bc_queueClosed (sys_bc s)"
    using ci by (auto simp: close_inv_def split: if_splits)
  with drain_enabled[OF q np] np show ?thesis
    by (auto simp: drain_steps_def exec_cstep[symmetric])
qed

theorem quiet_run_never_panics_or_deadlocks_witness:
  "\<exists>s. exec_run (init_system (collector_of_size 1)) [LAdd 0 (tdc 1)] = Some s \<and> outstanding s \<noteq> [] \<and>
     \<not> sys_panicked s \<and> (outstanding s = [] \<or> (\<exists>l \<in> {LEnqueue, LDequeue, LSent}. exec s l \<noteq> None))"
proof -
  obtain s where s: "exec_run (init_system (collector_of_size 1)) [LAdd 0 (tdc 1)] = Some s"
    "outstanding s \<noteq> []"
    by (simp add: collector_of_size_def NewBatchCollectorWithFlush_def init_system_def BC_Add_eq Let_def
        outstanding_def worker_load_def lock_load_def)
  have "quiet [LAdd 0 (tdc 1)]" by (simp add: quiet_def is_close_flush_def is_add_def)
  from quiet_run_never_panics_or_deadlocks[OF new_collector_of_size exec_run_crun[OF s(1)] this] s
  show ?thesis by auto
qed

text \<open>C5: Whatever is outstanding gets delivered: from every state of a quiet run the send loop alone
  can pass everything on, in the order of the stream, in exactly as many steps as the measure
  says; no event, timer or further call is needed.\<close>

theorem outstanding_is_delivered:
  assumes "NewBatchCollectorWithFlush m fi = Some bc" and "crun (init_system bc) ls s" and "quiet ls"
  shows "\<exists>more s'. crun s more s' \<and> set more \<subseteq> {LEnqueue, LDequeue, LSent} \<and>
    length more = drain_measure s \<and> sys_sent s' = sys_sent s @ outstanding s \<and> outstanding s' = []"
proof -
  have "\<not> bc_queueClosed bc"
    using assms(1) by (auto simp: NewBatchCollectorWithFlush_def split: if_splits)
  then have ci: "close_inv (closing ls) s" using crun_close_inv[OF assms(2,3)] by simp
  have "queue_inv s" using new_collector_inv[OF assms(1)] crun_inv[OF assms(2)] by blast
  moreover have "\<not> sys_panicked s" using ci by (simp add: close_inv_def)
  moreover have "sys_lock s = None \<or> \<not> bc_queueClosed (sys_bc s)"
    using ci by (auto simp: close_inv_def split: if_splits)
  ultimately show ?thesis using drain_completes[of s] by (simp add: drain_steps_def stream_def)
qed

theorem outstanding_is_delivered_witness:
  "\<exists>s more s'. exec_run (init_system (collector_of_size 1)) [LAdd 0 (tdc 1)] = Some s \<and> crun s more s' \<and>
     length more = 3 \<and> sys_sent s' = [\<lparr>req_batch = [tdc 1], req_seq = 1\<rparr>]"
proof -
  obtain s where s: "exec_run (init_system (collector_of_size 1)) [LAdd 0 (tdc 1)] = Some s"
    "drain_measure s = 3" "sys_sent s = []" "outstanding s = [\<lparr>req_batch = [tdc 1], req_seq = 1\<rparr>]"
    by (simp add: collector_of_size_def NewBatchCollectorWithFlush_def init_system_def BC_Add_eq Let_def
        drain_measure_def outstanding_def worker_load_def lock_load_def)
  have "quiet [LAdd 0 (tdc 1)]" by (simp add: quiet_def is_close_flush_def is_add_def)
  from outstanding_is_delivered[OF new_collector_of_size exec_run_crun[OF s(1)] this] s
  show ?thesis by auto
qed

text \<open>C7: \<open>Close\<close> can always finish when no event is added after its flush: once it waits in such a
  run, there is a continuation without further events that ends with its regular return and with
  everything delivered.\<close>

theorem close_can_return:
  assumes "NewBatchCollectorWithFlush m fi = Some bc" and "crun (init_system bc) ls s" and "quiet ls"
    and "sys_close s = CloseWaiting"
  shows "\<exists>more s'. crun s (more @ [LCloseDone]) s' \<and> adds more = [] \<and>
    concat (map req_batch (sys_sent s')) = adds ls"
proof -
  have start: "stream_inv (init_system bc)" "queue_inv (init_system bc)" "received_events (init_system bc) = []"
    using new_collector_inv[OF assms(1)] by auto
  have "\<not> bc_queueClosed bc"
    using assms(1) by (auto simp: NewBatchCollectorWithFlush_def split: if_splits)
  then have ci: "close_inv (closing ls) s" using crun_close_inv[OF assms(2,3)] by simp
  have cs: "bc_queueClosed (sys_bc s)" "bc_cancelled (sys_bc s)"
    using crun_close_state[OF assms(2)] assms(4) by (simp_all add: close_state_def)
  have q: "queue_inv s" using crun_inv[OF assms(2) start(1,2)] by blast
  from ci assms(4) cs(1) have e: "bc_events (sys_bc s) = []" "sys_lock s = None" "\<not> sys_panicked s"
    by (auto simp: close_inv_def split: if_splits)
  obtain more s' where m: "crun s (more @ [LCloseDone]) s'" "adds more = []" "sys_sent s' = stream s"
    using close_completes[OF q e(3) assms(4) cs e(2,1)] by blast
  moreover have "concat (map req_batch (stream s)) = adds ls"
    using crun_received[OF assms(2)] start(3) e(1) by (simp add: received_events_def)
  ultimately have "concat (map req_batch (sys_sent s')) = adds ls" by simp
  with m(1,2) show ?thesis by blast
qed

definition waiting_run :: "label list" where
  "waiting_run = [LAdd 0 (tdc 1), LAdd 0 (tdc 2), LEnqueue, LAdd 0 (tdc 3), LCancel, LCloseFlush 0, LDequeue,
     LEnqueue, LCloseQueue]"

lemma waiting_run_exec:
  "\<exists>s. exec_run (init_system (collector_of_size 2)) waiting_run = Some s \<and> sys_close s = CloseWaiting \<and>
     sys_sent s = []"
  by (simp add: collector_of_size_def NewBatchCollectorWithFlush_def waiting_run_def init_system_def
      BC_Add_eq flush_def Let_def send_on_queue_def maxInt_def go_div_def holds_lock_def)

theorem close_can_return_witness:
  "\<exists>s more s'. exec_run (init_system (collector_of_size 2)) waiting_run = Some s \<and> sys_sent s = [] \<and>
     crun s (more @ [LCloseDone]) s' \<and> concat (map req_batch (sys_sent s')) = [tdc 1, tdc 2, tdc 3]"
proof -
  obtain s where s: "exec_run (init_system (collector_of_size 2)) waiting_run = Some s"
    "sys_close s = CloseWaiting" "sys_sent s = []"
    using waiting_run_exec by blast
  have "quiet waiting_run" by (simp add: quiet_def waiting_run_def is_close_flush_def is_add_def)
  moreover have "adds waiting_run = [tdc 1, tdc 2, tdc 3]" by (simp add: waiting_run_def)
  ultimately show ?thesis
    using close_can_return[OF new_collector_of_size exec_run_crun[OF s(1)] _ s(2)] s by fastforce
qed

text \<open>C36: Events added after \<open>Close\<close> are lost, and filling a batch with them is a crash: however the
  collector was closed, once \<open>Close\<close> has returned and the mutex is free, the events that fill the
  buffer up to the batch size are none of them ever sent; the add of the last one has a send on
  the closed queue as its only continuation, and that send panics.\<close>

theorem add_after_close_panics:
  assumes "NewBatchCollectorWithFlush m fi = Some bc" and "crun (init_system bc) ls s"
    and "sys_close s = CloseReturned" and "sys_lock s = None" and "\<not> sys_panicked s"
    and "es \<noteq> []" and "int (length (bc_events (sys_bc s)) + length es) = max 1 m"
  shows "\<exists>s'. crun s (map (LAdd d) es) s' \<and> sys_sent s' = sys_sent s \<and>
    lock_load s' = [\<lparr>req_batch = bc_events (sys_bc s) @ es, req_seq = bc_sequence (sys_bc s) + 1\<rparr>] \<and>
    exec s' LEnqueue = None \<and> exec s' LPanic = Some (s'\<lparr>sys_panicked := True\<rparr>)"
proof -
  have "bc_maxSize bc = m" using new_collector_inv[OF assms(1)] by simp
  then have m: "bc_maxSize (sys_bc s) = m" using crun_config[OF assms(2)] by (simp add: init_system_def)
  have "bc_queueClosed (sys_bc s)"
    using crun_close_state[OF assms(2)] assms(3) by (simp add: close_state_def)
  from closed_adds[OF assms(5,4) this, of es d] assms(6,7) show ?thesis
    unfolding m by blast
qed

theorem add_after_close_panics_witness:
  "\<exists>s s'. crun (init_system (collector_of_size 2)) (closing_run @ [LCloseDone]) s \<and>
     crun s [LAdd 0 (tdc 4), LAdd 0 (tdc 5)] s' \<and> sys_sent s' = sys_sent s \<and>
     exec s' LEnqueue = None \<and> exec s' LPanic = Some (s'\<lparr>sys_panicked := True\<rparr>)"
proof -
  obtain s where s: "exec_run (init_system (collector_of_size 2)) closing_run = Some s"
    "outstanding s = []" "bc_events (sys_bc s) = []" "exec s LCloseDone = Some (s\<lparr>sys_close := CloseReturned\<rparr>)"
    using closing_run_exec by blast
  let ?s = "s\<lparr>sys_close := CloseReturned\<rparr>"
  have r: "crun (init_system (collector_of_size 2)) (closing_run @ [LCloseDone]) ?s"
    by (rule crun_snoc[OF exec_run_crun[OF s(1)] s(4)[unfolded exec_cstep]])
  have f: "sys_close ?s = CloseReturned" "sys_lock ?s = None" "\<not> sys_panicked ?s"
    using s(2,4) by (auto simp: outstanding_def lock_load_def split: option.splits if_splits)
  have n: "NewBatchCollectorWithFlush 2 0 = Some (collector_of_size 2)" by (rule new_collector_of_size) simp
  have e: "[tdc 4, tdc 5] \<noteq> []" "int (length (bc_events (sys_bc ?s)) + length [tdc 4, tdc 5]) = max 1 2"
    by (simp_all add: s(3))
  have es: "map (LAdd 0) [tdc 4, tdc 5] = [LAdd 0 (tdc 4), LAdd 0 (tdc 5)]" by simp
  from add_after_close_panics[OF n r f e, of 0] r show ?thesis unfolding es by blast
qed

end
