(* ===== verification/Health_Tests.thy ===== *)
theory Health_Tests
  imports Go_Prelude
begin

text \<open>
  The continuous health tests of NIST SP 800-90B, \<^verbatim>\<open>internal/validation/continuous_health_tests.go\<close>:
  the Repetition Count Test and the Adaptive Proportion Test. Each is a record of the
  struct's fields and one definition per method; the mutex makes a method atomic, so a call is
  one state transformer. The locale \<open>sample_test\<close> is the contract both tests share with the
  pool (a block test is the sample test run left to right, stopping at the first failure).
\<close>

subsection \<open>Repetition Count Test\<close>

record RepetitionCountTest =
  rct_cutoff :: int
  rct_lastSample :: byte
  rct_repeatCount :: int
  rct_initialized :: bool

definition NewRepetitionCountTest :: "int \<Rightarrow> RepetitionCountTest" where
  "NewRepetitionCountTest cutoff =
     (let cutoff' = (if cutoff \<le> 0 then 40 else cutoff)
      in \<lparr>rct_cutoff = cutoff', rct_lastSample = 0, rct_repeatCount = 0,
          rct_initialized = False\<rparr>)"

definition RCT_Test :: "RepetitionCountTest \<Rightarrow> byte \<Rightarrow> RepetitionCountTest \<times> bool" where
  "RCT_Test rct sample =
     (if \<not> rct_initialized rct then
        (rct\<lparr>rct_lastSample := sample, rct_repeatCount := 1, rct_initialized := True\<rparr>, True)
      else if sample = rct_lastSample rct then
        (let rct' = rct\<lparr>rct_repeatCount := rct_repeatCount rct + 1\<rparr>
         in (rct', \<not> rct_repeatCount rct' \<ge> rct_cutoff rct'))
      else
        (rct\<lparr>rct_repeatCount := 1, rct_lastSample := sample\<rparr>, True))"

fun RCT_TestBlock :: "RepetitionCountTest \<Rightarrow> byte list \<Rightarrow> RepetitionCountTest \<times> bool" where
  "RCT_TestBlock rct [] = (rct, True)"
| "RCT_TestBlock rct (sample # samples) =
     (case RCT_Test rct sample of
        (rct', ok) \<Rightarrow> if \<not> ok then (rct', False) else RCT_TestBlock rct' samples)"

definition RCT_Reset :: "RepetitionCountTest \<Rightarrow> RepetitionCountTest" where
  "RCT_Reset rct = rct\<lparr>rct_lastSample := 0, rct_repeatCount := 0, rct_initialized := False\<rparr>"

definition RCT_GetState :: "RepetitionCountTest \<Rightarrow> byte \<times> int \<times> int \<times> bool" where
  "RCT_GetState rct =
     (rct_lastSample rct, rct_repeatCount rct, rct_cutoff rct, rct_initialized rct)"

subsection \<open>Adaptive Proportion Test\<close>

record AdaptiveProportionTest =
  apt_cutoff :: int
  apt_windowSize :: int
  apt_firstSample :: byte
  apt_matchCount :: int
  apt_sampleCount :: int

definition NewAdaptiveProportionTest :: "int \<Rightarrow> int \<Rightarrow> AdaptiveProportionTest" where
  "NewAdaptiveProportionTest cutoff windowSize =
     (let cutoff' = (if cutoff \<le> 0 then 605 else cutoff);
          windowSize' = (if windowSize \<le> 0 then 4096 else windowSize)
      in \<lparr>apt_cutoff = cutoff', apt_windowSize = windowSize', apt_firstSample = 0,
          apt_matchCount = 0, apt_sampleCount = 0\<rparr>)"

definition APT_Test :: "AdaptiveProportionTest \<Rightarrow> byte \<Rightarrow> AdaptiveProportionTest \<times> bool" where
  "APT_Test apt sample =
     (let apt1 =
            (if apt_sampleCount apt = 0
             then apt\<lparr>apt_firstSample := sample, apt_matchCount := 1\<rparr>
             else if sample = apt_firstSample apt
             then apt\<lparr>apt_matchCount := apt_matchCount apt + 1\<rparr>
             else apt);
          apt2 = apt1\<lparr>apt_sampleCount := apt_sampleCount apt1 + 1\<rparr>
      in if apt_sampleCount apt2 \<ge> apt_windowSize apt2
         then (apt2\<lparr>apt_sampleCount := 0, apt_matchCount := 0\<rparr>,
               apt_matchCount apt2 < apt_cutoff apt2)
         else (apt2, True))"

fun APT_TestBlock :: "AdaptiveProportionTest \<Rightarrow> byte list \<Rightarrow> AdaptiveProportionTest \<times> bool" where
  "APT_TestBlock apt [] = (apt, True)"
| "APT_TestBlock apt (sample # samples) =
     (case APT_Test apt sample of
        (apt', ok) \<Rightarrow> if \<not> ok then (apt', False) else APT_TestBlock apt' samples)"

definition APT_Reset :: "AdaptiveProportionTest \<Rightarrow> AdaptiveProportionTest" where
  "APT_Reset apt = apt\<lparr>apt_firstSample := 0, apt_matchCount := 0, apt_sampleCount := 0\<rparr>"

definition APT_GetState :: "AdaptiveProportionTest \<Rightarrow> byte \<times> int \<times> int \<times> int \<times> int" where
  "APT_GetState apt =
     (apt_firstSample apt, apt_matchCount apt, apt_sampleCount apt, apt_cutoff apt,
      apt_windowSize apt)"

subsection \<open>The contract of a sample test\<close>

text \<open>
  What the pool relies on: a block test runs the sample test over the block and stops at the
  first failure, and samples, blocks and resets keep the test's invariant.
\<close>

locale sample_test =
  fixes test :: "'s \<Rightarrow> byte \<Rightarrow> 's \<times> bool"
    and test_block :: "'s \<Rightarrow> byte list \<Rightarrow> 's \<times> bool"
    and reset :: "'s \<Rightarrow> 's"
    and invar :: "'s \<Rightarrow> bool"
  assumes block_Nil: "test_block s [] = (s, True)"
    and block_Cons: "test_block s (x # xs) =
      (case test s x of (s', ok) \<Rightarrow> if \<not> ok then (s', False) else test_block s' xs)"
    and test_invar: "invar s \<Longrightarrow> invar (fst (test s x))"
    and reset_invar: "invar s \<Longrightarrow> invar (reset s)"
begin

lemma block_append:
  "test_block s (xs @ ys) =
     (case test_block s xs of (s', ok) \<Rightarrow> if \<not> ok then (s', False) else test_block s' ys)"
  by (induction xs arbitrary: s) (auto simp: block_Nil block_Cons split: prod.splits)

lemma block_single: "test_block s [x] = test s x"
  by (auto simp: block_Nil block_Cons split: prod.splits)

lemma block_snoc:
  "test_block s (xs @ [x]) =
     (case test_block s xs of (s', ok) \<Rightarrow> if \<not> ok then (s', False) else test s' x)"
  by (simp only: block_append block_single)

lemma block_invar: "invar s \<Longrightarrow> invar (fst (test_block s xs))"
proof (induction xs arbitrary: s)
  case Nil
  then show ?case by (simp add: block_Nil)
next
  case (Cons x xs)
  obtain s' ok where t: "test s x = (s', ok)" by fastforce
  with Cons.prems have "invar s'" using test_invar[of s x] by simp
  with t Cons.IH[of s'] show ?case by (simp add: block_Cons)
qed

lemma block_prefix_passes: "snd (test_block s (xs @ ys)) \<Longrightarrow> snd (test_block s xs)"
  by (auto simp: block_append split: prod.splits if_splits)

lemma block_failure_point:
  assumes "\<not> snd (test_block s xs)"
  shows "\<exists>ys y zs. xs = ys @ y # zs \<and> snd (test_block s ys) \<and>
           \<not> snd (test (fst (test_block s ys)) y) \<and>
           fst (test_block s xs) = fst (test (fst (test_block s ys)) y)"
  using assms
proof (induction xs rule: rev_induct)
  case Nil
  then show ?case by (simp add: block_Nil)
next
  case (snoc x xs)
  show ?case
  proof (cases "snd (test_block s xs)")
    case True
    with snoc.prems show ?thesis
      by (intro exI[of _ xs] exI[of _ x] exI[of _ "[]"])
         (auto simp: block_snoc split: prod.splits if_splits)
  next
    case False
    then obtain ys y zs where "xs = ys @ y # zs" "snd (test_block s ys)"
      "\<not> snd (test (fst (test_block s ys)) y)"
      "fst (test_block s xs) = fst (test (fst (test_block s ys)) y)"
      using snoc.IH by blast
    moreover from False have "test_block s (xs @ [x]) = test_block s xs"
      by (auto simp: block_append split: prod.splits)
    ultimately show ?thesis
      by (intro exI[of _ ys] exI[of _ y] exI[of _ "zs @ [x]"]) simp
  qed
qed

end

text \<open>The invariant of each test: counters in range and a usable configuration.\<close>

definition rct_invar :: "RepetitionCountTest \<Rightarrow> bool" where
  "rct_invar rct \<longleftrightarrow> 0 < rct_cutoff rct \<and> 0 \<le> rct_repeatCount rct \<and>
     (rct_initialized rct \<longrightarrow> 0 < rct_repeatCount rct)"

definition apt_invar :: "AdaptiveProportionTest \<Rightarrow> bool" where
  "apt_invar apt \<longleftrightarrow> 0 < apt_cutoff apt \<and> 0 < apt_windowSize apt \<and>
     0 \<le> apt_sampleCount apt \<and> apt_sampleCount apt < apt_windowSize apt \<and>
     0 \<le> apt_matchCount apt \<and> apt_matchCount apt \<le> apt_sampleCount apt"

lemma RCT_Test_invar: "rct_invar rct \<Longrightarrow> rct_invar (fst (RCT_Test rct x))"
  by (auto simp: rct_invar_def RCT_Test_def Let_def)

lemma APT_Test_invar: "apt_invar apt \<Longrightarrow> apt_invar (fst (APT_Test apt x))"
  by (auto simp: apt_invar_def APT_Test_def Let_def)

interpretation rct: sample_test RCT_Test RCT_TestBlock RCT_Reset rct_invar
  by unfold_locales (auto simp: rct_invar_def RCT_Reset_def RCT_Test_invar[unfolded rct_invar_def])

interpretation apt: sample_test APT_Test APT_TestBlock APT_Reset apt_invar
  by unfold_locales (auto simp: apt_invar_def APT_Reset_def APT_Test_invar[unfolded apt_invar_def])


subsection \<open>What the Repetition Count Test detects\<close>

text \<open>
  After a block that passed, the state records the last sample and the length of the run it
  ends with, so the next sample fails exactly when it extends that run to the cutoff.
\<close>

lemma RCT_TestBlock_state:
  assumes "0 < c" and "xs \<noteq> []" and "snd (RCT_TestBlock (NewRepetitionCountTest c) xs)"
  shows "fst (RCT_TestBlock (NewRepetitionCountTest c) xs) =
    \<lparr>rct_cutoff = c, rct_lastSample = last xs, rct_repeatCount = int (trailing_run xs),
     rct_initialized = True\<rparr>"
  using assms(2,3)
proof (induction xs rule: rev_induct)
  case Nil
  then show ?case by simp
next
  case (snoc x xs)
  show ?case
  proof (cases "xs = []")
    case True
    with assms(1) show ?thesis
      by (simp add: RCT_Test_def NewRepetitionCountTest_def trailing_run_snoc[of "[]", simplified])
  next
    case False
    moreover from snoc.prems have passed: "snd (RCT_TestBlock (NewRepetitionCountTest c) xs)"
      using rct.block_prefix_passes by blast
    ultimately have "RCT_TestBlock (NewRepetitionCountTest c) xs =
      (\<lparr>rct_cutoff = c, rct_lastSample = last xs, rct_repeatCount = int (trailing_run xs),
        rct_initialized = True\<rparr>, True)"
      using snoc.IH by (simp add: prod_eq_iff)
    with False show ?thesis
      by (simp add: rct.block_snoc RCT_Test_def trailing_run_snoc Let_def)
  qed
qed

lemma RCT_TestBlock_snoc:
  assumes "0 < c"
  shows "snd (RCT_TestBlock (NewRepetitionCountTest c) (xs @ [x])) \<longleftrightarrow>
    snd (RCT_TestBlock (NewRepetitionCountTest c) xs) \<and>
    trailing_run (xs @ [x]) < max 2 (nat c)"
proof (cases "snd (RCT_TestBlock (NewRepetitionCountTest c) xs)")
  case True
  show ?thesis
  proof (cases "xs = []")
    case True
    then show ?thesis
      using assms
      by (simp add: RCT_Test_def NewRepetitionCountTest_def trailing_run_snoc[of "[]", simplified])
  next
    case False
    obtain s where s: "RCT_TestBlock (NewRepetitionCountTest c) xs = (s, True)"
      using True by (metis prod.collapse)
    with RCT_TestBlock_state[OF assms False True] show ?thesis
      using trailing_run_pos[OF False] assms
      by (auto simp: rct.block_snoc RCT_Test_def trailing_run_snoc Let_def)
  qed
next
  case False
  then show ?thesis by (auto dest: rct.block_prefix_passes)
qed

lemma RCT_TestBlock_runs:
  assumes "0 < c"
  shows "snd (RCT_TestBlock (NewRepetitionCountTest c) xs) \<longleftrightarrow>
    \<not> (\<exists>x. sublist (replicate (max 2 (nat c)) x) xs)"
proof (induction xs rule: rev_induct)
  case Nil
  then show ?case by simp
next
  case (snoc x xs)
  have "1 \<le> max 2 (nat c)" by simp
  from sublist_replicate_snoc[OF this, of xs x] snoc show ?case
    unfolding RCT_TestBlock_snoc[OF assms] not_le[symmetric] by blast
qed

subsection \<open>What the Adaptive Proportion Test detects\<close>

text \<open>
  Inside a window the state counts the samples seen and the recurrences of the first one;
  the sample that completes the window decides it and clears the counters.
\<close>

definition apt_at_boundary :: "AdaptiveProportionTest \<Rightarrow> bool" where
  "apt_at_boundary apt \<longleftrightarrow> apt_sampleCount apt = 0 \<and> 0 < apt_windowSize apt"

lemma APT_TestBlock_partial:
  assumes "apt_at_boundary apt" and "xs \<noteq> []" and "int (length xs) < apt_windowSize apt"
  shows "APT_TestBlock apt xs =
    (apt\<lparr>apt_firstSample := hd xs, apt_matchCount := int (count_list xs (hd xs)),
         apt_sampleCount := int (length xs)\<rparr>, True)"
  using assms(2,3)
proof (induction xs rule: rev_induct)
  case Nil
  then show ?case by simp
next
  case (snoc x xs)
  show ?case
  proof (cases "xs = []")
    case True
    with assms(1) snoc.prems show ?thesis
      by (simp add: APT_Test_def apt_at_boundary_def)
  next
    case False
    with snoc show ?thesis
      by (auto simp: apt.block_snoc APT_Test_def Let_def)
  qed
qed

lemma APT_TestBlock_window:
  assumes "apt_at_boundary apt" and "int (length xs) = apt_windowSize apt"
  shows "APT_TestBlock apt xs =
    (apt\<lparr>apt_firstSample := hd xs, apt_matchCount := 0, apt_sampleCount := 0\<rparr>,
     int (count_list xs (hd xs)) < apt_cutoff apt)"
proof (cases xs rule: rev_cases)
  case Nil
  with assms show ?thesis by (simp add: apt_at_boundary_def)
next
  case (snoc ys y)
  show ?thesis
  proof (cases "ys = []")
    case True
    with assms snoc show ?thesis
      by (simp add: APT_Test_def apt_at_boundary_def)
  next
    case False
    with assms snoc APT_TestBlock_partial[OF assms(1) False] show ?thesis
      by (auto simp: apt.block_snoc APT_Test_def Let_def)
  qed
qed

lemma APT_TestBlock_windows:
  assumes "apt_at_boundary apt"
  shows "snd (APT_TestBlock apt xs) \<longleftrightarrow>
    list_all (\<lambda>w. int (count_list w (hd w)) < apt_cutoff apt)
      (windows (nat (apt_windowSize apt)) xs)"
  using assms
proof (induction "length xs" arbitrary: xs apt rule: less_induct)
  case less
  let ?n = "nat (apt_windowSize apt)"
  have n: "0 < ?n" "int ?n = apt_windowSize apt"
    using less.prems by (simp_all add: apt_at_boundary_def)
  show ?case
  proof (cases "length xs < ?n")
    case True
    then have "snd (APT_TestBlock apt xs)"
      using APT_TestBlock_partial[OF less.prems, of xs] by (cases "xs = []") auto
    with True show ?thesis by (simp add: windows_short)
  next
    case False
    define w where "w = take ?n xs"
    define r where "r = drop ?n xs"
    have xs: "xs = w @ r" and lw: "length w = ?n" and lr: "length r < length xs"
      using False n(1) by (simp_all add: w_def r_def)
    let ?apt = "apt\<lparr>apt_firstSample := hd w, apt_matchCount := 0, apt_sampleCount := 0\<rparr>"
    have "snd (APT_TestBlock ?apt r) \<longleftrightarrow>
        list_all (\<lambda>w. int (count_list w (hd w)) < apt_cutoff apt) (windows ?n r)"
      using less.hyps[OF lr, of ?apt] less.prems by (simp add: apt_at_boundary_def)
    moreover have "APT_TestBlock apt w = (?apt, int (count_list w (hd w)) < apt_cutoff apt)"
      using APT_TestBlock_window[OF less.prems, of w] lw n(2) by simp
    ultimately show ?thesis
      using lw n(1) by (simp add: xs apt.block_append windows_append)
  qed
qed

subsection \<open>Properties\<close>

text \<open>C14: A repetition count test built with any cutoff (a non-positive one means 40) accepts a
  stream of samples exactly when no sample is repeated cutoff times in a row. Cutoff 1 acts as 2:
  the first sample of a run is never reported.\<close>

theorem rct_accepts_iff_no_run:
  "snd (RCT_TestBlock (NewRepetitionCountTest cutoff) samples) \<longleftrightarrow>
     (\<nexists>x. sublist (replicate (max 2 (if cutoff \<le> 0 then 40 else nat cutoff)) x) samples)"
proof -
  have "NewRepetitionCountTest cutoff = NewRepetitionCountTest (if cutoff \<le> 0 then 40 else cutoff)"
    by (simp add: NewRepetitionCountTest_def)
  with RCT_TestBlock_runs[of "if cutoff \<le> 0 then 40 else cutoff" samples] show ?thesis
    by (simp split: if_splits)
qed

text \<open>C15: An adaptive proportion test built with any cutoff and window size accepts a stream exactly
  when in every complete window the first sample occurs fewer times than the cutoff; an
  incomplete last window is not judged.\<close>

theorem apt_accepts_iff_windows:
  "snd (APT_TestBlock (NewAdaptiveProportionTest cutoff windowSize) samples) \<longleftrightarrow>
     list_all (\<lambda>w. int (count_list w (hd w)) < (if cutoff \<le> 0 then 605 else cutoff))
       (windows (nat (if windowSize \<le> 0 then 4096 else windowSize)) samples)"
  using APT_TestBlock_windows[of "NewAdaptiveProportionTest cutoff windowSize" samples]
  by (simp add: NewAdaptiveProportionTest_def apt_at_boundary_def Let_def)

end
