(* ===== verification/Whitening.thy ===== *)
theory Whitening
  imports Sha256 Go_Float
begin

text \<open>
  The conditioning functions of \<^verbatim>\<open>internal/entropy/whitening.go\<close>: adjacent-byte XOR fold and
  SHA-256 (the pipeline the pool uses), the Von Neumann extractor with its bit packing, and the
  whitening statistics. The byte serialisation \<^verbatim>\<open>binary.LittleEndian.PutUint64\<close> that feeds the
  pipeline is here too.
\<close>

subsection \<open>Bits of a byte slice, most significant first\<close>

definition byte_bits :: "byte \<Rightarrow> bool list" where
  "byte_bits b = map (\<lambda>i. bit b (7 - i)) [0..<8]"

definition bytes_bits :: "byte list \<Rightarrow> bool list" where
  "bytes_bits bs = concat (map byte_bits bs)"

lemma length_byte_bits [simp]: "length (byte_bits b) = 8"
  by (simp add: byte_bits_def)

lemma length_bytes_bits [simp]: "length (bytes_bits bs) = 8 * length bs"
  by (induction bs) (simp_all add: bytes_bits_def)

lemma nth_bytes_bits:
  "k < 8 * length bs \<Longrightarrow> bytes_bits bs ! k = bit (bs ! (k div 8)) (7 - k mod 8)"
proof (induction bs arbitrary: k)
  case (Cons b bs)
  show ?case
  proof (cases "k < 8")
    case True
    then show ?thesis by (simp add: bytes_bits_def nth_append byte_bits_def)
  next
    case False
    then obtain j where k: "k = j + 8" by (metis add.commute le_Suc_ex not_less)
    with Cons show ?thesis by (simp add: bytes_bits_def nth_append)
  qed
qed simp

subsection \<open>The source's functions\<close>

text \<open>\<open>pack_loop\<close> is the loop of \<open>packBits\<close>: bit \<open>index\<close> is or-ed into its byte.\<close>

fun pack_loop :: "nat \<Rightarrow> byte list \<Rightarrow> byte list \<Rightarrow> byte list" where
  "pack_loop index [] output = output"
| "pack_loop index (b # bs) output =
     pack_loop (Suc index) bs
       (if b \<noteq> 0
        then output[index div 8 := output ! (index div 8) OR push_bit (7 - index mod 8) 1]
        else output)"

definition packBits :: "byte list \<Rightarrow> byte list" where
  "packBits bits =
     (if bits = [] then []
      else pack_loop 0 bits (replicate ((length bits + 7) div 8) 0))"

definition vn_byte :: "byte \<Rightarrow> byte list" where
  "vn_byte value =
     concat (map (\<lambda>pairIndex.
       let firstBitIndex = 7 - pairIndex * 2;
           secondBitIndex = firstBitIndex - 1;
           firstBit = drop_bit firstBitIndex value AND 1;
           secondBit = drop_bit secondBitIndex value AND 1
       in if firstBit = secondBit then [] else if firstBit = 0 then [0] else [1]) [0, 1, 2, 3])"

definition VonNeumannExtractor :: "byte list \<Rightarrow> byte list" where
  "VonNeumannExtractor input =
     (if input = [] then []
      else let extractedBits = concat (map vn_byte input)
           in if extractedBits = [] then [] else packBits extractedBits)"

definition SHA256Conditioner :: "byte list \<Rightarrow> byte list" where
  "SHA256Conditioner input = (if input = [] then [] else Sum256 input)"

definition ParityPreprocess :: "byte list \<Rightarrow> byte list" where
  "ParityPreprocess input =
     (if length input < 2 then []
      else map (\<lambda>index. input ! index XOR input ! (index + 1)) [0..<length input - 1])"

definition DualStageWhitening :: "byte list \<Rightarrow> byte list" where
  "DualStageWhitening rawTDC =
     (let stageOne = ParityPreprocess rawTDC
      in if stageOne = [] then [] else SHA256Conditioner stageOne)"

definition toBitCount :: "int \<Rightarrow> u32" where
  "toBitCount bytesCount =
     (if bytesCount \<le> 0 then 0
      else if bytesCount \<ge> 4294967295 div 8 then 4294967295
      else push_bit 3 (word_of_int bytesCount))"

record WhiteningStats =
  InputBits :: u32
  OutputBits :: u32
  ExtractionRate :: rat

definition ComputeWhiteningStats :: "int \<Rightarrow> int \<Rightarrow> WhiteningStats" where
  "ComputeWhiteningStats inputBytes outputBytes =
     (if inputBytes = 0 then \<lparr>InputBits = 0, OutputBits = 0, ExtractionRate = 0\<rparr>
      else let inputBits = toBitCount inputBytes;
               outputBits = toBitCount outputBytes;
               extractionRate =
                 (if inputBits > 0
                  then round64 (float64_of_int (uint outputBits) / float64_of_int (uint inputBits))
                  else 0)
           in \<lparr>InputBits = inputBits, OutputBits = outputBits, ExtractionRate = extractionRate\<rparr>)"

text \<open>\<^verbatim>\<open>binary.LittleEndian.PutUint64\<close>, and the serialisation of a batch's timestamps.\<close>

definition PutUint64 :: "u64 \<Rightarrow> byte list" where
  "PutUint64 v = map (\<lambda>i. ucast (drop_bit (8 * i) v)) [0..<8]"

subsection \<open>Packing keeps the bits\<close>

lemma length_pack_loop [simp]: "length (pack_loop i bs out) = length out"
  by (induction i bs out rule: pack_loop.induct) simp_all

lemma or_bit_at:
  fixes out :: "byte list"
  assumes "i < 8 * length out" and "k < 8 * length out"
  shows "bit (out[i div 8 := out ! (i div 8) OR push_bit (7 - i mod 8) 1] ! (k div 8)) (7 - k mod 8)
    \<longleftrightarrow> bit (out ! (k div 8)) (7 - k mod 8) \<or> k = i"
proof (cases "k div 8 = i div 8")
  case True
  have lt: "i div 8 < length out" using assms(1) by auto
  have eq: "7 - k mod 8 = 7 - i mod 8 \<longleftrightarrow> k = i"
  proof
    assume "7 - k mod 8 = 7 - i mod 8"
    moreover have "k mod 8 < 8" "i mod 8 < 8" by simp_all
    ultimately have "k mod 8 = i mod 8" by linarith
    with True show "k = i" by (metis div_mult_mod_eq)
  qed simp
  have "bit (push_bit (7 - i mod 8) 1 :: byte) (7 - k mod 8) \<longleftrightarrow> 7 - k mod 8 = 7 - i mod 8"
    by (auto simp: bit_exp_iff)
  with lt True eq show ?thesis by (simp add: bit_or_iff)
next
  case False
  then show ?thesis by auto
qed

lemma pack_loop_bits:
  assumes "i + length bs \<le> 8 * length out" and "k < 8 * length out"
  shows "bytes_bits (pack_loop i bs out) ! k \<longleftrightarrow>
    bytes_bits out ! k \<or> (i \<le> k \<and> k < i + length bs \<and> bs ! (k - i) \<noteq> 0)"
  using assms
proof (induction i bs out rule: pack_loop.induct)
  case (1 i out)
  then show ?case by auto
next
  case (2 i b bs out)
  define out' where
    "out' = (if b \<noteq> 0 then out[i div 8 := out ! (i div 8) OR push_bit (7 - i mod 8) 1] else out)"
  have len: "length out' = length out" by (simp add: out'_def)
  have IH: "bytes_bits (pack_loop (Suc i) bs out') ! k \<longleftrightarrow>
      bytes_bits out' ! k \<or> (Suc i \<le> k \<and> k < Suc i + length bs \<and> bs ! (k - Suc i) \<noteq> 0)"
    using "2.IH"[folded out'_def] "2.prems" by (simp add: len)
  have "bytes_bits out' ! k \<longleftrightarrow> bytes_bits out ! k \<or> (k = i \<and> b \<noteq> 0)"
    using "2.prems" or_bit_at[of i out k] by (auto simp: out'_def nth_bytes_bits)
  moreover have "(b # bs) ! (k - i) = (if k = i then b else bs ! (k - Suc i))" if "i \<le> k"
    using that by (auto simp: nth_Cons')
  ultimately show ?case
    using IH by (auto split: if_splits simp flip: out'_def)
qed

lemma byte_bits_zero: "byte_bits 0 = replicate 8 False"
  unfolding byte_bits_def by (simp only: bit_0_eq bot_apply map_replicate_const length_upt) simp

lemma bytes_bits_zero: "bytes_bits (replicate n 0) = replicate (8 * n) False"
proof (induction n)
  case (Suc n)
  have "replicate (8 * Suc n) False = replicate 8 False @ replicate (8 * n) False"
    by (simp only: mult_Suc_right replicate_add)
  with Suc show ?case by (simp only: bytes_bits_def replicate_Suc list.map concat.simps byte_bits_zero)
qed (simp add: bytes_bits_def)

lemma packBits_bits:
  "bytes_bits (packBits bits) =
     map (\<lambda>b. b \<noteq> 0) bits @ replicate (8 * ((length bits + 7) div 8) - length bits) False"
proof (cases "bits = []")
  case True
  then show ?thesis by (simp add: packBits_def bytes_bits_def)
next
  case False
  define n where "n = (length bits + 7) div 8"
  have n: "length bits \<le> 8 * n" unfolding n_def by simp
  show ?thesis
  proof (rule nth_equalityI)
    show "length (bytes_bits (packBits bits)) =
        length (map (\<lambda>b. b \<noteq> 0) bits @ replicate (8 * ((length bits + 7) div 8) - length bits) False)"
      using n by (simp add: packBits_def False n_def)
  next
    fix k assume "k < length (bytes_bits (packBits bits))"
    then have k: "k < 8 * n" by (simp add: packBits_def False n_def)
    have "bytes_bits (packBits bits) ! k \<longleftrightarrow> k < length bits \<and> bits ! k \<noteq> 0"
      using pack_loop_bits[of 0 bits "replicate n 0" k] n k
      by (simp add: packBits_def False bytes_bits_zero flip: n_def)
    then show "bytes_bits (packBits bits) ! k =
        (map (\<lambda>b. b \<noteq> 0) bits @ replicate (8 * ((length bits + 7) div 8) - length bits) False) ! k"
      using k by (auto simp: nth_append simp flip: n_def)
  qed
qed

lemma length_packBits: "length (packBits bits) = (length bits + 7) div 8"
  by (simp add: packBits_def)

subsection \<open>The Von Neumann extractor\<close>

text \<open>The textbook procedure on a bit stream: of two unequal bits keep the first.\<close>

fun von_neumann :: "bool list \<Rightarrow> bool list" where
  "von_neumann (a # b # bs) = (if a = b then von_neumann bs else a # von_neumann bs)"
| "von_neumann _ = []"

lemma von_neumann_append:
  "even (length xs) \<Longrightarrow> von_neumann (xs @ ys) = von_neumann xs @ von_neumann ys"
  by (induction xs rule: von_neumann.induct) auto

lemma and_one_bit: "drop_bit n (v :: byte) AND 1 = of_bool (bit v n)"
  by (simp add: and_one_eq odd_iff_mod_2_eq_one bit_iff_odd_drop_bit of_bool_odd_eq_mod_2
      flip: mod_2_eq_odd)

lemma vn_byte_bits: "map (\<lambda>b. b \<noteq> 0) (vn_byte v) = von_neumann (byte_bits v)"
  by (simp add: vn_byte_def byte_bits_def and_one_bit Let_def upt_rec)

lemma vn_bytes_bits:
  "map (\<lambda>b. b \<noteq> 0) (concat (map vn_byte input)) = von_neumann (bytes_bits input)"
proof (induction input)
  case (Cons v vs)
  then show ?case
    by (simp add: bytes_bits_def von_neumann_append vn_byte_bits)
qed (simp add: bytes_bits_def)

lemma VonNeumannExtractor_packs:
  "VonNeumannExtractor input = packBits (concat (map vn_byte input))"
  by (cases "input = []") (simp_all add: VonNeumannExtractor_def packBits_def Let_def)

lemma VonNeumannExtractor_bits:
  fixes input :: "byte list"
  defines "bits \<equiv> von_neumann (bytes_bits input)"
  shows "bytes_bits (VonNeumannExtractor input) =
    bits @ replicate (8 * ((length bits + 7) div 8) - length bits) False"
proof -
  have "length bits = length (concat (map vn_byte input))"
    unfolding bits_def vn_bytes_bits[symmetric] by simp
  then show ?thesis
    unfolding VonNeumannExtractor_packs packBits_bits vn_bytes_bits bits_def by simp
qed

subsection \<open>Parity fold and the two stages\<close>

lemma length_ParityPreprocess [simp]: "length (ParityPreprocess xs) = length xs - 1"
  by (cases xs) (auto simp: ParityPreprocess_def)

lemma nth_ParityPreprocess:
  "i < length xs - 1 \<Longrightarrow> ParityPreprocess xs ! i = xs ! i XOR xs ! (i + 1)"
  by (auto simp: ParityPreprocess_def)

lemma ParityPreprocess_Cons:
  "ParityPreprocess (x # y # xs) = (x XOR y) # ParityPreprocess (y # xs)"
proof (rule nth_equalityI)
  fix i assume "i < length (ParityPreprocess (x # y # xs))"
  then show "ParityPreprocess (x # y # xs) ! i = ((x XOR y) # ParityPreprocess (y # xs)) ! i"
    by (cases i) (simp_all add: nth_ParityPreprocess)
qed simp

text \<open>Folding a common mask into every byte does not show in the parities.\<close>

lemma ParityPreprocess_mask: "ParityPreprocess (map (\<lambda>x. m XOR x) xs) = ParityPreprocess xs"
proof (induction xs rule: induct_list012)
  case (3 x y xs)
  have "(m XOR x) XOR (m XOR y) = x XOR y"
    by (simp add: ac_simps)
  with 3 show ?case by (simp add: ParityPreprocess_Cons)
qed (simp_all add: ParityPreprocess_def)

text \<open>The fold loses the first byte only: it and the parities give the input back.\<close>

lemma ParityPreprocess_inj:
  assumes "length xs = length ys" and "xs \<noteq> []" and "hd xs = hd ys"
    and "ParityPreprocess xs = ParityPreprocess ys"
  shows "xs = ys"
  using assms
proof (induction xs arbitrary: ys rule: induct_list012)
  case (2 x)
  then show ?case by (cases ys) auto
next
  case (3 x y xs)
  then obtain y' ys' where ys: "ys = x # y' # ys'"
    by (cases ys; cases "tl ys") auto
  with 3 have "x XOR y = x XOR y'" and rest: "ParityPreprocess (y # xs) = ParityPreprocess (y' # ys')"
    by (auto simp: ParityPreprocess_Cons)
  then have "y = y'" by (metis bit.xor_left_self)
  moreover have "y # xs = y' # ys'"
    using "3.prems" ys rest \<open>y = y'\<close> by (intro "3.IH"(2)) auto
  ultimately show ?case using ys by simp
qed simp

lemma DualStageWhitening_eq:
  "2 \<le> length raw \<Longrightarrow> DualStageWhitening raw = Sum256 (ParityPreprocess raw)"
proof -
  assume "2 \<le> length raw"
  then have "ParityPreprocess raw \<noteq> []"
    using length_ParityPreprocess[of raw] by (cases "ParityPreprocess raw") auto
  then show ?thesis by (simp add: DualStageWhitening_def SHA256Conditioner_def Let_def)
qed

lemma length_DualStageWhitening:
  "length (DualStageWhitening raw) = (if 2 \<le> length raw then 32 else 0)"
  by (simp add: DualStageWhitening_eq)
     (simp add: DualStageWhitening_def ParityPreprocess_def)

subsection \<open>Little-endian timestamps\<close>

definition le_word :: "byte list \<Rightarrow> u64" where
  "le_word bs = foldr (\<lambda>b w. ucast b OR push_bit 8 w) bs 0"

lemma length_PutUint64 [simp]: "length (PutUint64 v) = 8"
  by (simp add: PutUint64_def)

lemma bit_le_word:
  "n < 64 \<Longrightarrow> bit (le_word bs) n \<longleftrightarrow> n < 8 * length bs \<and> bit (bs ! (n div 8)) (n mod 8)"
proof (induction bs arbitrary: n)
  case Nil
  then show ?case by (simp add: le_word_def)
next
  case (Cons b bs)
  have step: "le_word (b # bs) = ucast b OR push_bit 8 (le_word bs)" by (simp add: le_word_def)
  show ?case
  proof (cases "n < 8")
    case True
    with Cons.prems show ?thesis by (simp add: step bit_or_iff bit_ucast_iff bit_push_bit_iff)
  next
    case False
    then obtain j where n: "n = j + 8" by (metis add.commute le_Suc_ex not_less)
    have "\<not> bit b (j + 8)" using bit_imp_le_length[of b "j + 8"] by auto
    with Cons n show ?thesis by (simp add: step bit_or_iff bit_ucast_iff bit_push_bit_iff)
  qed
qed

lemma le_word_PutUint64: "le_word (PutUint64 v) = v"
proof (rule bit_word_eqI)
  fix n assume "n < LENGTH(64)"
  then have n: "n < 64" "n div 8 < 8" by simp_all
  have "8 * (n div 8) + n mod 8 = n" by simp
  with n show "bit (le_word (PutUint64 v)) n \<longleftrightarrow> bit v n"
    by (simp add: bit_le_word PutUint64_def bit_ucast_iff bit_drop_bit_eq del: upt_Suc)
qed

lemma PutUint64_inj: "PutUint64 v = PutUint64 w \<Longrightarrow> v = w"
  by (metis le_word_PutUint64)

lemma length_concat_PutUint64 [simp]: "length (concat (map PutUint64 vs)) = 8 * length vs"
  by (induction vs) simp_all

lemma concat_PutUint64_inj:
  assumes "concat (map PutUint64 vs) = concat (map PutUint64 ws)"
  shows "vs = ws"
proof -
  from arg_cong[OF assms, of length] have "length vs = length ws" by simp
  then show ?thesis
    using assms
    by (induction vs ws rule: list_induct2) (auto dest: PutUint64_inj)
qed

subsection \<open>Bit counts\<close>

lemma toBitCount_small: "0 \<le> n \<Longrightarrow> n < 536870911 \<Longrightarrow> uint (toBitCount n) = 8 * n"
proof -
  assume n: "0 \<le> n" "n < 536870911"
  then have "uint (push_bit 3 (word_of_int n :: u32)) = 8 * n"
    by (simp add: uint_word_ariths uint_word_of_int push_bit_eq_mult)
  with n show ?thesis by (cases "n = 0") (simp_all add: toBitCount_def)
qed

lemma toBitCount_large: "536870911 \<le> n \<Longrightarrow> toBitCount n = 4294967295"
  by (simp add: toBitCount_def)

subsection \<open>Properties\<close>

text \<open>C38: The Von Neumann extractor is the textbook procedure on the bit stream: its output bytes
  hold, most significant bit first, the first bit of every unequal pair of input bits, padded
  with zero bits to a whole number of bytes.\<close>

theorem VonNeumannExtractor_correct:
  "bytes_bits (VonNeumannExtractor input) =
     von_neumann (bytes_bits input) @
     replicate (8 * ((length (von_neumann (bytes_bits input)) + 7) div 8) -
                length (von_neumann (bytes_bits input))) False"
  by (rule VonNeumannExtractor_bits)

text \<open>The parity fold removes a bias common to all bytes: combining every input byte with the
  same mask leaves the result unchanged, while the fold together with the first byte still
  determines the input.\<close>

theorem ParityPreprocess_mask_and_injective:
  "ParityPreprocess (map (\<lambda>x. m XOR x) xs) = ParityPreprocess xs \<and>
   ((length xs = length ys \<and> xs \<noteq> [] \<and> hd xs = hd ys \<and> ParityPreprocess xs = ParityPreprocess ys) =
    (xs \<noteq> [] \<and> xs = ys))"
  using ParityPreprocess_mask ParityPreprocess_inj[of xs ys] by auto

text \<open>Dual-stage whitening of two or more bytes is SHA-256 of the parity fold and so 32 bytes;
  one byte or none gives nothing.\<close>

theorem DualStageWhitening_spec:
  "DualStageWhitening raw = (if 2 \<le> length raw then Sum256 (ParityPreprocess raw) else []) \<and>
   length (DualStageWhitening raw) = (if 2 \<le> length raw then 32 else 0)"
proof (cases "2 \<le> length raw")
  case False
  then have "length (DualStageWhitening raw) = 0" by (simp add: length_DualStageWhitening)
  with False show ?thesis by simp
qed (simp add: DualStageWhitening_eq)

text \<open>The bit count of a buffer is eight times its length as long as that is below 536870911
  bytes; from there on, including 536870911 bytes whose eightfold still fits into 32 bits, it is
  saturated at the largest value.\<close>

theorem toBitCount_spec:
  "uint (toBitCount (int n)) = (if n < 536870911 then 8 * int n else 2 ^ 32 - 1)"
  using toBitCount_small[of "int n"] toBitCount_large[of "int n"] by simp

end
