(* ===== verification/Quick_Tests.thy ===== *)
theory Quick_Tests
  imports Whitening
begin

text \<open>
  The quick statistical tests of \<^verbatim>\<open>internal/validation/quick_tests.go\<close>. Counts and ratios follow the
  float64 arithmetic of the source; the p-values go through \<^verbatim>\<open>math.Erfc\<close>, \<^verbatim>\<open>math.Sqrt\<close> and
  \<^verbatim>\<open>math.Pow\<close> and are modelled over the reals.
\<close>

subsection \<open>The tests\<close>

definition OnesCount8 :: "byte \<Rightarrow> int" where
  "OnesCount8 b = int (length (filter (bit b) [0..<8]))"

definition FrequencyTest :: "byte list \<Rightarrow> rat \<times> bool" where
  "FrequencyTest data =
     (if data = [] then (0, False)
      else let ones = foldl (\<lambda>ones b. ones + OnesCount8 b) 0 data;
               total = int (length data) * 8;
               ratio = round64 (float64_of_int ones / float64_of_int total);
               passed = (ratio \<ge> round64 (45 / 100) \<and> ratio \<le> round64 (55 / 100))
           in (ratio, passed))"

text \<open>\<open>runs_byte\<close> is one turn of the outer loop: bits \<open>startBit\<close> down to 0 of a byte.\<close>

definition runs_byte :: "int \<times> byte \<times> bool \<Rightarrow> byte \<Rightarrow> int \<times> byte \<times> bool" where
  "runs_byte st b =
     (case st of (runs, lastBit, firstByte) \<Rightarrow>
        let startBit = (if firstByte then 6 else 7 :: nat);
            (runs', lastBit') =
              foldl (\<lambda>(runs, lastBit) i.
                       let bt = drop_bit i b AND 1
                       in if bt \<noteq> lastBit then (runs + 1, bt) else (runs, lastBit))
                (runs, lastBit) (rev [0..<Suc startBit])
        in (runs', lastBit', False))"

definition RunsTest :: "byte list \<Rightarrow> int \<times> bool" where
  "RunsTest data =
     (if data = [] then (0, False)
      else let (runs, _, _) = foldl runs_byte (1, drop_bit 7 (hd data) AND 1, True) data;
               n = int (length data) * 8;
               expected = round64 (float64_of_int n / 2);
               deviation = round64 (\<bar>round64 (float64_of_int runs - expected)\<bar> / expected);
               passed = (deviation < round64 (1 / 10))
           in (runs, passed))"

text \<open>The complementary error function, as its power series.\<close>

definition Erfc :: "real \<Rightarrow> real" where
  "Erfc x = 1 - 2 / sqrt pi * (\<Sum>n. (- 1) ^ n * x ^ (2 * n + 1) / (fact n * real (2 * n + 1)))"

definition clamp_probability :: "real \<Rightarrow> real" where
  "clamp_probability pValue =
     (let p = (if pValue < 0 then 0 else pValue) in if p > 1 then 1 else p)"

definition computeFrequencyPValue :: "byte list \<Rightarrow> rat \<Rightarrow> real" where
  "computeFrequencyPValue data ratio =
     (let n = real (length data * 8);
          ones = real_of_rat ratio * n;
          expected = n / 2;
          chiSq = (ones - expected) ^ 2 / expected
      in clamp_probability (Erfc (sqrt (chiSq / 2))))"

definition computeRunsPValue :: "byte list \<Rightarrow> int \<Rightarrow> real" where
  "computeRunsPValue data runs =
     (let n = real (length data * 8);
          expectedRuns = n / 2;
          variance = n / 4;
          z = \<bar>real_of_int runs - expectedRuns\<bar> / sqrt variance
      in clamp_probability (Erfc (z / sqrt 2)))"

text \<open>The loop of \<open>computeRCTStat\<close> over the bytes after the first.\<close>

fun rct_stat_loop :: "byte list \<Rightarrow> int \<Rightarrow> int \<Rightarrow> byte \<Rightarrow> int" where
  "rct_stat_loop [] maxRepetitions currentRepetitions lastByte = maxRepetitions"
| "rct_stat_loop (d # ds) maxRepetitions currentRepetitions lastByte =
     (if d = lastByte
      then let c = currentRepetitions + 1
           in rct_stat_loop ds (if c > maxRepetitions then c else maxRepetitions) c lastByte
      else rct_stat_loop ds maxRepetitions 1 d)"

definition computeRCTStat :: "byte list \<Rightarrow> u32 \<Rightarrow> rat" where
  "computeRCTStat data window =
     (if data = [] \<or> window = 0 then 0
      else float64_of_int (rct_stat_loop (tl (take (unat window) data)) 1 1 (hd data)))"

text \<open>
  A frequency table \<^verbatim>\<open>map[byte]int\<close>, filled by \<open>freq[b]++\<close>, and the loop that looks for its
  largest entry. Go ranges over a map in an unspecified order, here the list \<open>ks\<close> of keys.
\<close>

definition freq_inc :: "(byte \<rightharpoonup> int) \<Rightarrow> byte \<Rightarrow> (byte \<rightharpoonup> int)" where
  "freq_inc freq b = freq(b \<mapsto> (case freq b of None \<Rightarrow> 1 | Some c \<Rightarrow> c + 1))"

definition freq_table :: "byte list \<Rightarrow> (byte \<rightharpoonup> int)" where
  "freq_table data = foldl freq_inc Map.empty data"

definition max_freq :: "(byte \<rightharpoonup> int) \<Rightarrow> byte list \<Rightarrow> int" where
  "max_freq freq ks =
     foldl (\<lambda>mx k. case freq k of None \<Rightarrow> mx | Some c \<Rightarrow> if c > mx then c else mx) 0 ks"

definition computeAPTStat :: "byte list \<Rightarrow> u32 \<Rightarrow> rat" where
  "computeAPTStat data window =
     (if data = [] \<or> window = 0 then 0
      else let windowSize = (if int (unat window) > int (length data) then length data
                             else unat window);
               ds = take windowSize data
           in round64 (float64_of_int (max_freq (freq_table ds) (remdups ds)) /
                       float64_of_int (int windowSize)))"

record TestSummary =
  FreqPvalue :: real
  RunsPvalue :: real
  RctStat :: "rat option"
  AptStat :: "rat option"
  RctWindow :: "u32 option"
  AptWindow :: "u32 option"

definition ComputeTestSummary :: "byte list \<Rightarrow> u32 \<Rightarrow> u32 \<Rightarrow> TestSummary" where
  "ComputeTestSummary data rctWindow aptWindow =
     (if data = []
      then \<lparr>FreqPvalue = 0, RunsPvalue = 0, RctStat = None, AptStat = None, RctWindow = None,
            AptWindow = None\<rparr>
      else let (freqRatio, _) = FrequencyTest data;
               freqPValue = computeFrequencyPValue data freqRatio;
               (runsCount, _) = RunsTest data;
               runsPValue = computeRunsPValue data runsCount;
               rctStat = computeRCTStat data rctWindow;
               aptStat = computeAPTStat data aptWindow
           in \<lparr>FreqPvalue = freqPValue, RunsPvalue = runsPValue, RctStat = Some rctStat,
               AptStat = Some aptStat, RctWindow = Some rctWindow, AptWindow = Some aptWindow\<rparr>)"

subsection \<open>Counting ones\<close>

text \<open>The number of set bits of a slice.\<close>

definition ones_of :: "byte list \<Rightarrow> nat" where
  "ones_of data = length (filter id (bytes_bits data))"

lemma upt_8: "[0..<8] = [0, 1, 2, 3, 4, 5, 6, 7 :: nat]"
  by (simp add: upt_rec)

lemma upt_7: "[0..<Suc 6] = [0, 1, 2, 3, 4, 5, 6 :: nat]"
  by (simp add: upt_rec)

lemma byte_bits_rev: "byte_bits b = map (bit b) (rev [0..<8])"
  unfolding byte_bits_def upt_8 by simp

lemma OnesCount8_bits: "OnesCount8 b = int (length (filter id (byte_bits b)))"
  unfolding OnesCount8_def byte_bits_rev by (simp only: filter_map length_map comp_def id_apply
      rev_filter[symmetric] length_rev)

lemma foldl_OnesCount8: "foldl (\<lambda>n b. n + OnesCount8 b) k data = k + int (ones_of data)"
  by (induction data arbitrary: k)
     (simp_all add: ones_of_def bytes_bits_def OnesCount8_bits)

lemma ones_of_le: "ones_of data \<le> 8 * length data"
  using length_filter_le[of id "bytes_bits data"] by (simp add: ones_of_def)

lemma float64_of_nat: "n \<le> 2 ^ 53 \<Longrightarrow> float64_of_int (int n) = of_nat n"
  by (simp add: float64_of_int_exact)

lemma FrequencyTest_ratio:
  assumes "data \<noteq> []" and "length data \<le> 2 ^ 41"
  shows "fst (FrequencyTest data) = round64 (of_nat (ones_of data) / of_nat (8 * length data))"
proof -
  have "ones_of data \<le> 2 ^ 53" "8 * length data \<le> 2 ^ 53"
    using assms(2) ones_of_le[of data] by simp_all
  then show ?thesis
    using assms float64_of_nat[of "ones_of data"] float64_of_nat[of "8 * length data"]
    by (simp add: FrequencyTest_def foldl_OnesCount8 Let_def mult.commute)
qed

lemma FrequencyTest_decision:
  assumes "data \<noteq> []" and "length data \<le> 2 ^ 41"
  shows "snd (FrequencyTest data) \<longleftrightarrow>
    9 * (8 * length data) \<le> 20 * ones_of data \<and> 20 * ones_of data \<le> 11 * (8 * length data)"
proof -
  let ?a = "ones_of data" and ?b = "8 * length data"
  have b: "0 < ?b" "?b \<le> 2 ^ 44" "?a \<le> ?b"
    using assms ones_of_le by simp_all
  have "round64 (45 / 100) \<le> round64 (of_nat ?a / of_nat ?b) \<longleftrightarrow> 9 * ?b \<le> ?a * 20"
    using f64.rnd_ratio_ge_iff[of 20 ?b 9 ?a] b by simp
  moreover have "round64 (of_nat ?a / of_nat ?b) \<le> round64 (55 / 100) \<longleftrightarrow> ?a * 20 \<le> 11 * ?b"
    using f64.rnd_ratio_le_iff[of 20 ?b ?a 11] b by simp
  moreover have "snd (FrequencyTest data) \<longleftrightarrow>
      round64 (45 / 100) \<le> fst (FrequencyTest data) \<and> fst (FrequencyTest data) \<le> round64 (55 / 100)"
    using assms by (simp add: FrequencyTest_def Let_def)
  ultimately show ?thesis
    using FrequencyTest_ratio[OF assms] by (simp add: mult.commute)
qed

subsection \<open>Counting runs\<close>

text \<open>\<open>changes x ys\<close> is the number of places where the stream \<open>x # ys\<close> changes value.\<close>

fun changes :: "bool \<Rightarrow> bool list \<Rightarrow> int" where
  "changes x [] = 0"
| "changes x (y # ys) = (if y \<noteq> x then 1 else 0) + changes y ys"

lemma changes_append: "changes x (ys @ zs) = changes x ys + changes (last (x # ys)) zs"
  by (induction ys arbitrary: x) auto

lemma length_remdups_adj_changes: "int (length (remdups_adj (x # ys))) = 1 + changes x ys"
proof (induction ys arbitrary: x)
  case (Cons y ys)
  then show ?case using Cons[of y] by (cases "y = x") simp_all
qed simp

lemma runs_bits_fold:
  "foldl (\<lambda>(runs, lastBit) i. if drop_bit i b AND 1 \<noteq> lastBit
                               then (runs + 1, drop_bit i b AND 1) else (runs, lastBit))
     (r, of_bool x) is =
   (r + changes x (map (bit b) is), of_bool (last (x # map (bit b) is)) :: byte)"
  by (induction "is" arbitrary: r x) (auto simp: and_one_bit Let_def)

lemma runs_byte_first:
  "runs_byte (r, of_bool x, True) b =
     (r + changes x (tl (byte_bits b)), of_bool (last (x # tl (byte_bits b))), False)"
proof -
  have "tl (byte_bits b) = map (bit b) (rev [0..<Suc 6])"
    unfolding byte_bits_rev upt_8 upt_7 by simp
  then show ?thesis by (simp only: runs_byte_def prod.case Let_def if_True runs_bits_fold)
qed

lemma runs_byte_rest:
  "runs_byte (r, of_bool x, False) b =
     (r + changes x (byte_bits b), of_bool (last (x # byte_bits b)), False)"
proof -
  have "byte_bits b = map (bit b) (rev [0..<Suc 7])"
    unfolding byte_bits_rev by simp
  then show ?thesis by (simp only: runs_byte_def prod.case Let_def if_False runs_bits_fold)
qed

lemma runs_bytes_rest:
  "foldl runs_byte (r, of_bool x, False) bs =
     (r + changes x (bytes_bits bs), of_bool (last (x # bytes_bits bs)), False)"
proof (induction bs arbitrary: r x)
  case (Cons b bs)
  have "byte_bits b \<noteq> []" by (metis length_byte_bits list.size(3) zero_neq_numeral)
  then show ?case
    using Cons[of "r + changes x (byte_bits b)" "last (x # byte_bits b)"]
    by (simp add: runs_byte_rest bytes_bits_def changes_append)
qed (simp add: bytes_bits_def)

lemma RunsTest_count:
  assumes "data \<noteq> []"
  shows "fst (RunsTest data) = int (length (remdups_adj (bytes_bits data)))"
proof -
  obtain b bs where data: "data = b # bs" using assms by (cases data) auto
  obtain t where bb: "byte_bits b = bit b 7 # t"
    unfolding byte_bits_rev upt_8 by simp
  have "foldl runs_byte (1, drop_bit 7 b AND 1, True) data =
      foldl runs_byte (1 + changes (bit b 7) t, of_bool (last (bit b 7 # t)), False) bs"
    using runs_byte_first[of 1 "bit b 7" b] by (simp add: data bb and_one_bit)
  also have "fst \<dots> = 1 + changes (bit b 7) (t @ bytes_bits bs)"
    by (simp only: runs_bytes_rest changes_append fst_conv add.assoc)
  also have "\<dots> = int (length (remdups_adj (bytes_bits data)))"
    by (simp add: data bytes_bits_def bb length_remdups_adj_changes)
  finally show ?thesis
    by (simp add: RunsTest_def data Let_def case_prod_beta)
qed

lemma RunsTest_decision:
  assumes "data \<noteq> []" and "length data \<le> 2 ^ 41"
  defines "runs \<equiv> int (length (remdups_adj (bytes_bits data)))"
  shows "snd (RunsTest data) \<longleftrightarrow> 10 * \<bar>runs - 4 * int (length data)\<bar> < 4 * int (length data)"
proof -
  let ?b = "4 * length data"
  define a where "a = nat \<bar>runs - 4 * int (length data)\<bar>"
  have a_int: "int a = \<bar>runs - 4 * int (length data)\<bar>" by (simp add: a_def)
  have runs: "fst (RunsTest data) = runs" using RunsTest_count[OF assms(1)] by (simp add: runs_def)
  have "runs \<le> int (8 * length data)"
    using remdups_adj_length[of "bytes_bits data"] by (simp add: runs_def)
  then have bound: "\<bar>runs\<bar> \<le> 2 ^ 53" "\<bar>runs - 4 * int (length data)\<bar> \<le> 2 ^ 53"
    using assms(2) by (simp_all add: runs_def)
  have exp: "round64 (float64_of_int (int (length data) * 8) / 2) = of_nat ?b"
    using assms(2) float64_of_nat[of "length data * 8"] f64.rnd_nat[of ?b] by simp
  have "round64 (float64_of_int runs - of_nat ?b) = of_int (runs - 4 * int (length data))"
    using bound float64_of_int_exact[of runs] f64.rnd_int[OF bound(2)] by simp
  then have dev: "\<bar>round64 (float64_of_int runs - of_nat ?b)\<bar> = of_nat a"
    by (simp add: a_def of_nat_nat)
  have "snd (RunsTest data) \<longleftrightarrow> round64 (of_nat a / of_nat ?b) < round64 (1 / 10)"
    using assms(1) runs exp dev by (auto simp: RunsTest_def Let_def split: prod.splits)
  also have "\<dots> \<longleftrightarrow> \<not> 1 * ?b \<le> a * 10"
    using f64.rnd_ratio_ge_iff[of 10 ?b 1 a] assms(1,2) by (simp flip: not_le)
  finally show ?thesis
    unfolding a_int[symmetric] by linarith
qed

subsection \<open>Summary statistics\<close>

lemma clamp_probability_range: "0 \<le> clamp_probability p \<and> clamp_probability p \<le> 1"
  by (simp add: clamp_probability_def)

text \<open>The repetition statistic is the length of the longest run in the window.\<close>

lemma rct_stat_loop_runs:
  assumes "ys \<noteq> []"
    and "\<And>k. 1 \<le> k \<Longrightarrow> int k \<le> m \<longleftrightarrow> (\<exists>x. sublist (replicate k x) ys)"
    and "1 \<le> k"
  shows "int k \<le> rct_stat_loop xs m (int (trailing_run ys)) (last ys) \<longleftrightarrow>
    (\<exists>x. sublist (replicate k x) (ys @ xs))"
  using assms(1,2)
proof (induction xs arbitrary: ys m)
  case Nil
  then show ?case using assms(3) by simp
next
  case (Cons x xs)
  define t where "t = int (trailing_run (ys @ [x]))"
  have "\<exists>z. sublist (replicate 1 z) ys"
    using Cons.prems(1) by (intro exI[of _ "hd ys"]) (cases ys, auto)
  with Cons.prems(2)[of 1] have m: "1 \<le> m" by simp
  have "int k \<le> rct_stat_loop xs (max m t) t (last (ys @ [x])) \<longleftrightarrow>
      (\<exists>z. sublist (replicate k z) ((ys @ [x]) @ xs))"
    unfolding t_def
    by (rule Cons.IH)
       (simp_all add: Cons.prems(2) sublist_replicate_snoc le_max_iff_disj of_nat_le_iff)
  moreover have "rct_stat_loop (x # xs) m (int (trailing_run ys)) (last ys) =
      rct_stat_loop xs (max m t) t (last (ys @ [x]))"
    using m Cons.prems(1) trailing_run_pos[OF Cons.prems(1)]
    by (auto simp: t_def trailing_run_snoc max_def add.commute Let_def)
  ultimately show ?case by simp
qed

lemma sublist_replicate_single: "1 \<le> k \<Longrightarrow> (\<exists>x. sublist (replicate k x) [y]) \<longleftrightarrow> k = 1"
  by (cases k) (auto simp: sublist_Cons_right)

lemma computeRCTStat_runs:
  assumes "data \<noteq> []" and "window \<noteq> 0" and "length data \<le> 2 ^ 53" and "1 \<le> k"
  shows "of_nat k \<le> computeRCTStat data window \<longleftrightarrow>
    (\<exists>x. sublist (replicate k x) (take (unat window) data))"
proof -
  define w where "w = take (unat window) data"
  define r where "r = rct_stat_loop (tl w) 1 1 (hd data)"
  have "0 < unat window" using assms(2) by (simp add: unat_gt_0)
  then obtain d ds where w: "w = d # ds" and d: "hd data = d"
    using assms(1) unfolding w_def by (cases data; cases "unat window") auto
  have runs: "int k \<le> r \<longleftrightarrow> (\<exists>x. sublist (replicate k x) w)" if "1 \<le> k" for k
  proof -
    have "trailing_run [d] = 1" using trailing_run_snoc[of "[]" d] by simp
    then show ?thesis
      using rct_stat_loop_runs[of "[d]" 1 k ds] that
      by (simp add: r_def w d sublist_replicate_single)
  qed
  have "r \<le> 2 ^ 53"
  proof (rule ccontr)
    assume "\<not> r \<le> 2 ^ 53"
    then obtain x where "sublist (replicate (2 ^ 53 + 1) x) w"
      using runs[of "2 ^ 53 + 1"] by auto
    then have "2 ^ 53 + 1 \<le> length w" by (metis length_replicate sublist_length_le)
    with assms(3) show False by (simp add: w_def)
  qed
  moreover have "1 \<le> r" using runs[of 1] w by (auto intro!: exI[of _ d])
  ultimately have "float64_of_int r = of_int r" by (intro float64_of_int_exact) simp
  then have "of_nat k \<le> computeRCTStat data window \<longleftrightarrow> int k \<le> r"
    using assms(1,2)
    by (simp add: computeRCTStat_def r_def w_def) (metis of_int_le_iff of_int_of_nat_eq)
  with runs[OF assms(4)] show ?thesis by (simp add: w_def)
qed

subsection \<open>Frequency tables\<close>

lemma freq_table_snoc: "freq_table (xs @ [x]) = freq_inc (freq_table xs) x"
  by (simp add: freq_table_def)

lemma freq_table_count:
  "freq_table data b = (if b \<in> set data then Some (int (count_list data b)) else None)"
  by (induction data rule: rev_induct)
     (auto simp: freq_table_snoc freq_inc_def, auto simp: freq_table_def)

lemma max_freq_snoc:
  "max_freq f (ks @ [k]) =
     (case f k of None \<Rightarrow> max_freq f ks | Some c \<Rightarrow> max c (max_freq f ks))"
  by (auto simp: max_freq_def max_def split: option.split)

text \<open>Whatever order the map is ranged over, the loop finds the largest count.\<close>

lemma max_freq_upper:
  "k \<in> set ks \<Longrightarrow> f k = Some c \<Longrightarrow> c \<le> max_freq f ks"
  by (induction ks rule: rev_induct) (auto simp: max_freq_snoc split: option.split)

lemma max_freq_nonneg: "0 \<le> max_freq f ks"
  by (induction ks rule: rev_induct) (auto simp: max_freq_snoc split: option.split, simp add: max_freq_def)

lemma max_freq_attained:
  "max_freq f ks = 0 \<or> (\<exists>k \<in> set ks. f k = Some (max_freq f ks))"
proof (induction ks rule: rev_induct)
  case Nil
  then show ?case by (simp add: max_freq_def)
next
  case (snoc k ks)
  then show ?case by (auto simp: max_freq_snoc max_def split: option.split)
qed

lemma max_freq_table:
  assumes "data \<noteq> []" and "set ks = set data"
  shows "\<exists>b \<in> set data. max_freq (freq_table data) ks = int (count_list data b) \<and>
    (\<forall>b'. count_list data b' \<le> count_list data b)"
proof -
  obtain x where x: "x \<in> set data" using assms(1) by (cases data) auto
  have "0 < count_list data x" using x by (metis count_list_0_iff gr0I)
  moreover have "int (count_list data x) \<le> max_freq (freq_table data) ks"
    using x assms(2) by (intro max_freq_upper) (auto simp: freq_table_count)
  ultimately have "max_freq (freq_table data) ks \<noteq> 0" by linarith
  with max_freq_attained[of "freq_table data" ks] obtain b
    where b: "b \<in> set ks" "freq_table data b = Some (max_freq (freq_table data) ks)" by blast
  then have mx: "max_freq (freq_table data) ks = int (count_list data b)" "b \<in> set data"
    using assms(2) by (auto simp: freq_table_count split: if_splits)
  have "count_list data b' \<le> count_list data b" for b'
  proof (cases "b' \<in> set data")
    case True
    then have "int (count_list data b') \<le> max_freq (freq_table data) ks"
      using assms(2) by (intro max_freq_upper) (auto simp: freq_table_count)
    with mx show ?thesis by simp
  next
    case False
    then show ?thesis by (simp add: count_notin)
  qed
  with mx show ?thesis by blast
qed

subsection \<open>Properties\<close>

text \<open>C40: The frequency test decides exactly: for up to 2^41 bytes, the computed binary64 ratio lies
  between the rounded bounds 0.45 and 0.55 precisely when the true share of one bits lies between
  nine and eleven twentieths.\<close>

theorem FrequencyTest_exact:
  assumes "data \<noteq> []" and "length data \<le> 2 ^ 41"
  shows "snd (FrequencyTest data) \<longleftrightarrow>
    9 * (8 * length data) \<le> 20 * ones_of data \<and> 20 * ones_of data \<le> 11 * (8 * length data)"
  using assms by (rule FrequencyTest_decision)

theorem FrequencyTest_exact_witness:
  "snd (FrequencyTest [0x0F, 0xF0]) \<longleftrightarrow>
     9 * (8 * length [0x0F, 0xF0 :: byte]) \<le> 20 * ones_of [0x0F, 0xF0] \<and>
     20 * ones_of [0x0F, 0xF0] \<le> 11 * (8 * length [0x0F, 0xF0 :: byte])"
  by (rule FrequencyTest_exact) simp_all

text \<open>C39: The runs test counts the maximal runs of equal bits over the whole bit stream, across byte
  borders, and for up to 2^41 bytes passes exactly when that count deviates from half the number
  of bits by less than a tenth of it.\<close>

theorem RunsTest_exact:
  assumes "data \<noteq> []" and "length data \<le> 2 ^ 41"
  shows "fst (RunsTest data) = int (length (remdups_adj (bytes_bits data))) \<and>
    (snd (RunsTest data) \<longleftrightarrow>
      10 * \<bar>int (length (remdups_adj (bytes_bits data))) - 4 * int (length data)\<bar> < 4 * int (length data))"
  using RunsTest_count RunsTest_decision assms by blast

theorem RunsTest_exact_witness:
  "fst (RunsTest [0xCC, 0x33]) = int (length (remdups_adj (bytes_bits [0xCC, 0x33]))) \<and>
    (snd (RunsTest [0xCC, 0x33]) \<longleftrightarrow>
      10 * \<bar>int (length (remdups_adj (bytes_bits [0xCC, 0x33]))) - 4 * int (length [0xCC, 0x33 :: byte])\<bar> <
        4 * int (length [0xCC, 0x33 :: byte]))"
  by (rule RunsTest_exact) simp_all

text \<open>The repetition statistic of a window is the length of the longest run of one byte value in
  the first window-many bytes.\<close>

theorem computeRCTStat_longest_run:
  assumes "data \<noteq> []" and "window \<noteq> 0" and "length data \<le> 2 ^ 53" and "1 \<le> k"
  shows "of_nat k \<le> computeRCTStat data window \<longleftrightarrow>
    (\<exists>x. sublist (replicate k x) (take (unat window) data))"
  using assms by (rule computeRCTStat_runs)

theorem computeRCTStat_longest_run_witness:
  "of_nat 2 \<le> computeRCTStat [7, 9, 9, 9] 3 \<longleftrightarrow>
     (\<exists>x. sublist (replicate 2 x) (take (unat (3 :: u32)) [7, 9, 9, 9 :: byte]))"
  by (rule computeRCTStat_longest_run) simp_all

end
