(* ===== verification/Min_Entropy.thy ===== *)
theory Min_Entropy
  imports Quick_Tests
begin

text \<open>
  The min-entropy estimators of \<^verbatim>\<open>internal/validation/min_entropy.go\<close>: most common value and
  collision, each with its diagnostic variant, and the conservative minimum. Counts and
  positions are exact, \<open>pMax\<close> is the float64 ratio, and \<^verbatim>\<open>math.Log2\<close> is the real logarithm (its
  last-digit rounding is not modelled).
\<close>

subsection \<open>The estimators\<close>

definition mcv_entropy :: "byte list \<Rightarrow> int \<Rightarrow> real" where
  "mcv_entropy data maxCount =
     (let pMax = round64 (float64_of_int maxCount / float64_of_int (int (length data)))
      in if pMax \<ge> 1 then 0 else - log 2 (real_of_rat pMax))"

definition EstimateMCV :: "byte list \<Rightarrow> real" where
  "EstimateMCV data =
     (if data = [] then 0
      else mcv_entropy data (max_freq (freq_table data) (remdups data)))"

text \<open>
  The diagnostic variant also reports which byte attains the maximum; with a tie the answer
  depends on the order \<open>ks\<close> in which Go ranges over the map.
\<close>

definition mcv_scan :: "(byte \<rightharpoonup> int) \<Rightarrow> byte list \<Rightarrow> int \<times> byte" where
  "mcv_scan freq ks =
     foldl (\<lambda>(maxCount, mostCommonValue) val.
              case freq val of None \<Rightarrow> (maxCount, mostCommonValue)
              | Some count \<Rightarrow> if count > maxCount then (count, val)
                             else (maxCount, mostCommonValue)) (0, 0) ks"

definition EstimateMCVWithStats ::
    "byte list \<Rightarrow> byte list \<Rightarrow> real \<times> byte \<times> int \<times> int" where
  "EstimateMCVWithStats ks data =
     (if data = [] then (0, 0, 0, 0)
      else let freq = freq_table data;
               uniqueValues = int (card (dom freq));
               (maxCount, mostCommonValue) = mcv_scan freq ks
           in (mcv_entropy data maxCount, mostCommonValue, maxCount, uniqueValues))"

text \<open>
  The loop shared by both collision estimators: the one-indexed position of the first value
  already in \<open>seen\<close>, that value, and the number of values in \<open>seen\<close> when the loop ends.
\<close>

fun collision_loop :: "byte list \<Rightarrow> nat \<Rightarrow> byte list \<Rightarrow> (int \<times> byte) option \<times> nat" where
  "collision_loop seen i [] = (None, length seen)"
| "collision_loop seen i (b # bs) =
     (if b \<in> set seen then (Some (int i + 1, b), length seen)
      else collision_loop (seen @ [b]) (Suc i) bs)"

definition collision_entropy :: "int \<Rightarrow> real" where
  "collision_entropy tCollision =
     (if tCollision = 2 then 1
      else let minEntropy = log 2 (real_of_int tCollision);
               capped = (if minEntropy > 8 then 8 else minEntropy)
           in if capped < 0 then 0 else capped)"

definition EstimateCollision :: "byte list \<Rightarrow> real" where
  "EstimateCollision data =
     (if data = [] then 0
      else if length data = 1 then 8
      else case fst (collision_loop [] 0 data) of
             None \<Rightarrow> 8
           | Some (tCollision, _) \<Rightarrow> collision_entropy tCollision)"

definition EstimateCollisionWithStats :: "byte list \<Rightarrow> real \<times> int \<times> byte \<times> int" where
  "EstimateCollisionWithStats data =
     (if data = [] then (0, 0, 0, 0)
      else if length data = 1 then (8, 0, hd data, 1)
      else case collision_loop [] 0 data of
             (None, unique) \<Rightarrow> (8, 0, 0, int unique)
           | (Some (tCollision, collidedValue), unique) \<Rightarrow>
               (collision_entropy tCollision, tCollision, collidedValue, int unique))"

definition EstimateMinEntropyConservative :: "byte list \<Rightarrow> real" where
  "EstimateMinEntropyConservative data =
     (let mcv = EstimateMCV data; collision = EstimateCollision data
      in if mcv < collision then mcv else collision)"

subsection \<open>Most common value\<close>

lemma length_count_sum: "length data = (\<Sum>b \<in> UNIV. count_list data (b :: byte))"
  by (metis finite subset_UNIV sum_count_set)

lemma some_count_ge:
  assumes "\<And>b'. count_list data (b' :: byte) \<le> m"
  shows "length data \<le> 256 * m"
proof -
  have "length data \<le> (\<Sum>b \<in> (UNIV :: byte set). m)"
    unfolding length_count_sum using assms by (rule sum_mono)
  also have "\<dots> = 256 * m" by (simp add: card_word)
  finally show ?thesis .
qed

lemma mcv_entropy_range:
  assumes "0 < m" "m \<le> length data" "length data \<le> 256 * m" "length data \<le> 2 ^ 53"
  shows "0 \<le> mcv_entropy data (int m) \<and> mcv_entropy data (int m) \<le> 8"
proof -
  define p where "p = round64 (of_nat m / of_nat (length data))"
  have p: "round64 (float64_of_int (int m) / float64_of_int (int (length data))) = p"
    using assms float64_of_nat[of m] float64_of_nat[of "length data"] by (simp add: p_def)
  have "(of_nat (length data) :: rat) \<le> of_nat (256 * m)"
    using assms(3) by (simp only: of_nat_le_iff)
  moreover have "0 < (of_nat (length data) :: rat)" using assms(1,2) by (cases data) auto
  ultimately have "1 / 256 \<le> (of_nat m / of_nat (length data) :: rat)"
    by (simp add: field_simps)
  then have "round64 (1 / 256) \<le> p" unfolding p_def by (rule f64.rnd_mono)
  moreover have "round64 (1 / 256) = 1 / 256"
    using round64_powi[of "- 8"] by (simp add: power_int_minus)
  ultimately have lo: "1 / 256 \<le> p" by simp
  then have "real_of_rat (1 / 256) \<le> real_of_rat p" by (simp only: of_rat_less_eq)
  then have lo': "1 / 256 \<le> real_of_rat p" by (simp add: of_rat_divide)
  show ?thesis
  proof (cases "p \<ge> 1")
    case True
    then show ?thesis by (simp add: mcv_entropy_def p Let_def)
  next
    case False
    then have "real_of_rat p \<le> 1" by simp
    moreover have pos: "0 < real_of_rat p" using lo' by linarith
    ultimately have "log 2 (real_of_rat p) \<le> 0" by simp
    moreover have "log 2 (1 / 256) \<le> log 2 (real_of_rat p)"
      using lo' pos by (intro log_mono) simp_all
    moreover have "log 2 (1 / 256 :: real) = - 8"
      using log_pow_cancel[of "2 :: real" 8] by (simp add: log_divide)
    ultimately show ?thesis using False by (simp add: mcv_entropy_def p Let_def)
  qed
qed

lemma EstimateMCV_range:
  assumes "length data \<le> 2 ^ 53"
  shows "0 \<le> EstimateMCV data \<and> EstimateMCV data \<le> 8"
proof (cases "data = []")
  case True
  then show ?thesis by (simp add: EstimateMCV_def)
next
  case False
  then obtain b where b: "b \<in> set data"
    "max_freq (freq_table data) (remdups data) = int (count_list data b)"
    "\<forall>b'. count_list data b' \<le> count_list data b"
    using max_freq_table[of data "remdups data"] by auto
  have "0 < count_list data b" using b(1) by (metis count_list_0_iff gr0I)
  moreover have "length data \<le> 256 * count_list data b" using b(3) by (intro some_count_ge) auto
  ultimately show ?thesis
    using mcv_entropy_range[of "count_list data b" data] False b(2) assms
    by (simp add: EstimateMCV_def count_le_length)
qed

lemma count_list_eq_length: "count_list xs x = length xs \<longleftrightarrow> (\<forall>y \<in> set xs. y = x)"
proof (induction xs)
  case (Cons a xs)
  have "count_list xs x \<le> length xs" by (rule count_le_length)
  with Cons show ?case by auto
qed simp

lemma EstimateMCV_zero_iff:
  assumes "data \<noteq> []" and "length data \<le> 2 ^ 44"
  shows "EstimateMCV data = 0 \<longleftrightarrow> (\<exists>b. data = replicate (length data) b)"
proof -
  obtain b where b: "b \<in> set data"
    "max_freq (freq_table data) (remdups data) = int (count_list data b)"
    "\<forall>b'. count_list data b' \<le> count_list data b"
    using max_freq_table[of data "remdups data"] assms(1) by auto
  let ?m = "count_list data b"
  define p where "p = round64 (of_nat ?m / of_nat (length data))"
  have m: "0 < ?m" "?m \<le> length data"
    using b(1) by (metis count_list_0_iff gr0I) (rule count_le_length)
  have p: "round64 (float64_of_int (int ?m) / float64_of_int (int (length data))) = p"
    using m assms float64_of_nat[of ?m] float64_of_nat[of "length data"] by (simp add: p_def)
  have one: "p \<ge> 1 \<longleftrightarrow> ?m = length data"
    using f64.rnd_ratio_ge_iff[of 1 "length data" 1 ?m] assms m by (auto simp: p_def)
  have "0 < p"
    unfolding p_def using m assms(1) by (intro f64.rnd_pos) simp
  then have "p < 1 \<Longrightarrow> log 2 (real_of_rat p) \<noteq> 0"
    by (simp add: log_eq_one less_imp_neq)
  moreover have "EstimateMCV data = (if p \<ge> 1 then 0 else - log 2 (real_of_rat p))"
    using assms(1) by (simp add: EstimateMCV_def mcv_entropy_def b(2) p Let_def)
  ultimately have "EstimateMCV data = 0 \<longleftrightarrow> ?m = length data"
    unfolding one[symmetric] by (simp add: not_le)
  also have "\<dots> \<longleftrightarrow> (\<exists>b. data = replicate (length data) b)"
  proof
    assume "?m = length data"
    then have "data = replicate (length data) b"
      by (intro replicate_eqI) (auto simp: count_list_eq_length)
    then show "\<exists>b. data = replicate (length data) b" by blast
  next
    assume "\<exists>b. data = replicate (length data) b"
    then obtain c where c: "data = replicate (length data) c" by blast
    with b(1) have "b = c" by (metis in_set_replicate)
    with c show "?m = length data" by (metis count_list_eq_length in_set_replicate)
  qed
  finally show ?thesis .
qed

lemma mcv_scan_snoc:
  "mcv_scan f (ks @ [k]) =
     (case f k of None \<Rightarrow> mcv_scan f ks
      | Some c \<Rightarrow> if c > fst (mcv_scan f ks) then (c, k) else mcv_scan f ks)"
  by (auto simp: mcv_scan_def split: option.split prod.split)

lemma mcv_scan_max: "fst (mcv_scan f ks) = max_freq f ks"
proof (induction ks rule: rev_induct)
  case Nil
  then show ?case by (simp add: mcv_scan_def max_freq_def)
next
  case (snoc k ks)
  then show ?case by (auto simp: mcv_scan_snoc max_freq_snoc max_def split: option.split)
qed

lemma mcv_scan_attained:
  "fst (mcv_scan f ks) = 0 \<or>
   (snd (mcv_scan f ks) \<in> set ks \<and> f (snd (mcv_scan f ks)) = Some (fst (mcv_scan f ks)))"
proof (induction ks rule: rev_induct)
  case Nil
  then show ?case by (simp add: mcv_scan_def)
next
  case (snoc k ks)
  then show ?case by (auto simp: mcv_scan_snoc split: option.split)
qed

lemma dom_freq_table: "dom (freq_table data) = set data"
  by (auto simp: freq_table_count dom_def)

subsection \<open>Collision\<close>

lemma collision_loop_None:
  assumes "fst (collision_loop seen i bs) = None" and "distinct seen"
  shows "distinct (seen @ bs) \<and> snd (collision_loop seen i bs) = length seen + length bs"
  using assms
proof (induction bs arbitrary: seen i)
  case (Cons b bs)
  then have "b \<notin> set seen" and "fst (collision_loop (seen @ [b]) (Suc i) bs) = None"
    by (auto split: if_splits)
  with Cons.IH[of "seen @ [b]" "Suc i"] Cons.prems(2) show ?case by simp
qed simp

lemma collision_loop_Some:
  assumes "fst (collision_loop seen i bs) = Some (t, v)" and "distinct seen"
  shows "\<exists>j < length bs. t = int i + int j + 1 \<and> v = bs ! j \<and> v \<in> set (seen @ take j bs) \<and>
    distinct (seen @ take j bs) \<and> snd (collision_loop seen i bs) = length seen + j"
  using assms
proof (induction bs arbitrary: seen i)
  case (Cons b bs)
  show ?case
  proof (cases "b \<in> set seen")
    case True
    with Cons.prems show ?thesis by (intro exI[of _ 0]) auto
  next
    case False
    with Cons.prems have "fst (collision_loop (seen @ [b]) (Suc i) bs) = Some (t, v)" by simp
    from Cons.IH[OF this] False Cons.prems(2) obtain j where "j < length bs"
      "t = int (Suc i) + int j + 1" "v = bs ! j" "v \<in> set ((seen @ [b]) @ take j bs)"
      "distinct ((seen @ [b]) @ take j bs)"
      "snd (collision_loop (seen @ [b]) (Suc i) bs) = length (seen @ [b]) + j" by auto
    with False show ?thesis by (intro exI[of _ "Suc j"]) auto
  qed
qed simp

text \<open>The position found is that of the first byte that occurred before.\<close>

lemma collision_first:
  assumes "fst (collision_loop [] 0 data) = Some (t, v)"
  obtains j where "j < length data" and "t = int j + 1" and "v = data ! j"
    and "v \<in> set (take j data)" and "distinct (take j data)"
    and "snd (collision_loop [] 0 data) = j"
  using collision_loop_Some[OF assms] by auto

lemma collision_position_range:
  assumes "fst (collision_loop [] 0 data) = Some (t, v)"
  shows "2 \<le> t \<and> t \<le> 257"
proof -
  from assms obtain j where j: "j < length data" "t = int j + 1" "v \<in> set (take j data)"
    "distinct (take j data)" by (rule collision_first)
  have "card (set (take j data)) \<le> card (UNIV :: byte set)" by (intro card_mono) auto
  then have "j \<le> 256" using j by (simp add: distinct_card card_word)
  moreover have "0 < j" using j(3) by (cases j) auto
  ultimately show ?thesis using j(2) by simp
qed

lemma collision_entropy_range: "2 \<le> t \<Longrightarrow> 1 \<le> collision_entropy t \<and> collision_entropy t \<le> 8"
proof -
  assume "2 \<le> t"
  then have "log 2 2 \<le> log 2 (real_of_int t)" by (subst log_le_cancel_iff) auto
  then show ?thesis by (simp add: collision_entropy_def Let_def)
qed

lemma EstimateCollision_range:
  "data \<noteq> [] \<Longrightarrow> 1 \<le> EstimateCollision data \<and> EstimateCollision data \<le> 8"
  using collision_position_range[of data] collision_entropy_range
  by (auto simp: EstimateCollision_def split: option.split)

lemma EstimateMinEntropyConservative_min:
  "EstimateMinEntropyConservative data = min (EstimateMCV data) (EstimateCollision data)"
  by (simp add: EstimateMinEntropyConservative_def Let_def min_def)

subsection \<open>Properties\<close>

text \<open>The most-common-value estimate lies between 0 and 8 bits per byte and is 0 exactly for a
  constant block.\<close>

theorem EstimateMCV_bounds:
  assumes "data \<noteq> []" and "length data \<le> 2 ^ 44"
  shows "0 \<le> EstimateMCV data \<and> EstimateMCV data \<le> 8 \<and>
    (EstimateMCV data = 0 \<longleftrightarrow> (\<exists>b. data = replicate (length data) b))"
  using EstimateMCV_range[of data] EstimateMCV_zero_iff[OF assms] assms(2) by simp

theorem EstimateMCV_bounds_witness:
  "0 \<le> EstimateMCV [1, 2] \<and> EstimateMCV [1, 2] \<le> 8 \<and>
    (EstimateMCV [1, 2] = 0 \<longleftrightarrow> (\<exists>b. [1, 2 :: byte] = replicate (length [1, 2 :: byte]) b))"
  by (rule EstimateMCV_bounds) simp_all

text \<open>The collision estimate lies between 1 and 8 bits per byte, and the conservative estimate is
  the smaller of the two.\<close>

theorem EstimateCollision_bounds:
  assumes "data \<noteq> []"
  shows "1 \<le> EstimateCollision data \<and> EstimateCollision data \<le> 8 \<and>
    EstimateMinEntropyConservative data = min (EstimateMCV data) (EstimateCollision data)"
  using EstimateCollision_range[OF assms] EstimateMinEntropyConservative_min by simp

theorem EstimateCollision_bounds_witness:
  "1 \<le> EstimateCollision [5, 6, 5] \<and> EstimateCollision [5, 6, 5] \<le> 8 \<and>
    EstimateMinEntropyConservative [5, 6, 5] = min (EstimateMCV [5, 6, 5]) (EstimateCollision [5, 6, 5])"
  by (rule EstimateCollision_bounds) simp

end
