(* ===== verification/Pool.thy ===== *)
theory Pool
  imports Mqtt_Handler Health_Tests Min_Entropy
begin

text \<open>
  The whitened entropy pool of \<^verbatim>\<open>internal/entropy/pool.go\<close>: a bounded byte buffer filled with
  conditioned batches of events and emptied from the front, behind the continuous health tests.
  Every method runs its state change under the pool's mutex, so a call is one transformer of
  the record; it also returns the metric calls it makes, in order.
\<close>

subsection \<open>State and operations\<close>

record WhitenedPool =
  rawEvents :: "TDCEvent list"
  whitened :: "byte list"
  minPoolSize :: int
  maxPoolSize :: int
  maxRawEvents :: int
  pool_rct :: RepetitionCountTest
  pool_apt :: AdaptiveProportionTest

definition defaultMinWhitenedBytes :: int where
  "defaultMinWhitenedBytes = 32"

definition whitenedBufferMultiplier :: int where
  "whitenedBufferMultiplier = 4"

definition defaultMaxRawEventsStored :: int where
  "defaultMaxRawEventsStored = 4096"

definition NewWhitenedPoolWithBounds :: "int \<Rightarrow> int \<Rightarrow> WhitenedPool" where
  "NewWhitenedPoolWithBounds minSize maxSize =
     (let minSize1 = (if minSize \<le> 0 then defaultMinWhitenedBytes else minSize);
          maxSize1 = (if maxSize \<le> 0 then wrap_int (minSize1 * whitenedBufferMultiplier)
                      else maxSize);
          maxSize2 = (if maxSize1 < minSize1 then minSize1 else maxSize1)
      in \<lparr>rawEvents = [], whitened = [], minPoolSize = minSize1, maxPoolSize = maxSize2,
          maxRawEvents = defaultMaxRawEventsStored,
          pool_rct = NewRepetitionCountTest 40,
          pool_apt = NewAdaptiveProportionTest 605 4096\<rparr>)"

definition NewWhitenedPool :: "int \<Rightarrow> WhitenedPool" where
  "NewWhitenedPool minSize =
     (let minSize1 = (if minSize \<le> 0 then defaultMinWhitenedBytes else minSize);
          maxSize = wrap_int (minSize1 * whitenedBufferMultiplier);
          maxSize1 = (if maxSize < minSize1 then minSize1 else maxSize)
      in NewWhitenedPoolWithBounds minSize1 maxSize1)"

definition batch_raw_bytes :: "TDCEvent list \<Rightarrow> byte list" where
  "batch_raw_bytes events = concat (map (\<lambda>event. PutUint64 (TdcTimestampPs event)) events)"

definition AddBatch :: "WhitenedPool \<Rightarrow> TDCEvent list \<Rightarrow> WhitenedPool \<times> metric_log" where
  "AddBatch pool events =
     (if events = [] then (pool, [])
      else
        let rawBytes = batch_raw_bytes events;
            whitenedBytes = DualStageWhitening rawBytes;
            ratio = (if rawBytes \<noteq> [] \<and> whitenedBytes \<noteq> []
                     then round64 (float64_of_int (int (length whitenedBytes)) /
                                   float64_of_int (int (length rawBytes)))
                     else 0);
            ms1 = RecordWhitening (int (length rawBytes)) (int (length whitenedBytes)) ratio;
            ms2 = (if whitenedBytes \<noteq> [] then
                     (case FrequencyTest whitenedBytes of (freqRatio, freqPassed) \<Rightarrow>
                      case RunsTest whitenedBytes of (runsCount, runsPassed) \<Rightarrow>
                        RecordValidation freqRatio freqPassed runsCount runsPassed) @
                     RecordMinEntropyMCV (EstimateMCV whitenedBytes) @
                     RecordMinEntropyCollision (EstimateCollision whitenedBytes)
                   else []);
            pool1 = pool\<lparr>rawEvents := keep_newest (maxRawEvents pool) (rawEvents pool @ events)\<rparr>
        in if whitenedBytes = [] then (pool1, ms1 @ ms2)
           else
             let pool2 = pool1\<lparr>whitened :=
                   keep_newest (maxPoolSize pool1) (whitened pool1 @ whitenedBytes)\<rparr>
             in (pool2, ms1 @ ms2 @ SetEntropyPoolSize (int (length (whitened pool2)))))"

definition ExtractEntropy ::
    "WhitenedPool \<Rightarrow> int \<Rightarrow> WhitenedPool \<times> byte list option \<times> metric_log" where
  "ExtractEntropy pool numBytes =
     (if numBytes \<le> 0 then (pool, None, [])
      else if int (length (whitened pool)) < minPoolSize pool then (pool, None, [])
      else if int (length (whitened pool)) < numBytes then (pool, None, [])
      else
        let output = take (nat numBytes) (whitened pool);
            (rct1, rctOk) = RCT_TestBlock (pool_rct pool) output
        in if \<not> rctOk then
             (pool\<lparr>pool_rct := RCT_Reset rct1\<rparr>, None,
              RecordContinuousRCTFailure @ RecordEventDropped ''rct_failure'')
           else
             let (apt1, aptOk) = APT_TestBlock (pool_apt pool) output
             in if \<not> aptOk then
                  (pool\<lparr>pool_rct := rct1, pool_apt := APT_Reset apt1\<rparr>, None,
                   RecordContinuousAPTFailure @ RecordEventDropped ''apt_failure'')
                else
                  let pool1 = pool\<lparr>pool_rct := rct1, pool_apt := apt1,
                                   whitened := drop (nat numBytes) (whitened pool)\<rparr>
                  in (pool1, Some output,
                      RecordEntropyExtraction numBytes @
                      SetEntropyPoolSize (int (length (whitened pool1)))))"

definition PoolStatus :: "WhitenedPool \<Rightarrow> int \<times> int" where
  "PoolStatus pool = (int (length (rawEvents pool)), int (length (whitened pool)))"

definition AvailableEntropy :: "WhitenedPool \<Rightarrow> int" where
  "AvailableEntropy pool =
     (if int (length (whitened pool)) \<le> minPoolSize pool then 0
      else int (length (whitened pool)) - minPoolSize pool)"

subsection \<open>Conditioned bytes of a batch\<close>

definition batch_bytes :: "TDCEvent list \<Rightarrow> byte list" where
  "batch_bytes events = DualStageWhitening (batch_raw_bytes events)"

lemma length_batch_raw_bytes [simp]: "length (batch_raw_bytes events) = 8 * length events"
  unfolding batch_raw_bytes_def by (induction events) simp_all

lemma length_batch_bytes: "length (batch_bytes events) = (if events = [] then 0 else 32)"
  by (cases events) (simp_all add: batch_bytes_def length_DualStageWhitening)

lemma batch_bytes_Nil [simp]: "batch_bytes [] = []"
  using length_batch_bytes[of "[]"] by simp

lemma batch_bytes_nonempty: "events \<noteq> [] \<Longrightarrow> batch_bytes events \<noteq> []"
  using length_batch_bytes[of events] by auto

lemma batch_bytes_sha:
  "events \<noteq> [] \<Longrightarrow> batch_bytes events = Sum256 (ParityPreprocess (batch_raw_bytes events))"
  by (cases events) (simp_all add: batch_bytes_def DualStageWhitening_eq)

subsection \<open>Equations of the operations\<close>

lemma AddBatch_pool [pool_simps]:
  "fst (AddBatch pool events) =
     (if events = [] then pool
      else pool\<lparr>rawEvents := keep_newest (maxRawEvents pool) (rawEvents pool @ events),
               whitened := keep_newest (maxPoolSize pool) (whitened pool @ batch_bytes events)\<rparr>)"
  using batch_bytes_nonempty[of events] by (simp add: AddBatch_def Let_def batch_bytes_def)

lemma AddBatch_log_ok: "log_ok (snd (AddBatch pool events))"
  by (simp add: AddBatch_def Let_def split: prod.split)

lemma AddBatch_no_failure:
  "m \<in> {ContinuousRCTFailures, ContinuousAPTFailures} \<Longrightarrow> count_inc m (snd (AddBatch pool events)) = 0"
  by (auto simp: AddBatch_def Let_def record_defs split: prod.split)

lemma ExtractEntropy_log_ok: "log_ok (snd (snd (ExtractEntropy pool n)))"
  by (simp add: ExtractEntropy_def Let_def split: prod.split)

definition extraction_possible :: "WhitenedPool \<Rightarrow> int \<Rightarrow> bool" where
  "extraction_possible pool n \<longleftrightarrow>
     0 < n \<and> minPoolSize pool \<le> int (length (whitened pool)) \<and> n \<le> int (length (whitened pool))"

definition health_passes :: "WhitenedPool \<Rightarrow> byte list \<Rightarrow> bool" where
  "health_passes pool bs \<longleftrightarrow>
     snd (RCT_TestBlock (pool_rct pool) bs) \<and> snd (APT_TestBlock (pool_apt pool) bs)"

lemma ExtractEntropy_impossible [pool_simps]:
  "\<not> extraction_possible pool n \<Longrightarrow> ExtractEntropy pool n = (pool, None, [])"
  by (auto simp: ExtractEntropy_def extraction_possible_def)

lemma ExtractEntropy_released [pool_simps]:
  assumes "extraction_possible pool n" and "health_passes pool (take (nat n) (whitened pool))"
  shows "ExtractEntropy pool n =
    (pool\<lparr>pool_rct := fst (RCT_TestBlock (pool_rct pool) (take (nat n) (whitened pool))),
          pool_apt := fst (APT_TestBlock (pool_apt pool) (take (nat n) (whitened pool))),
          whitened := drop (nat n) (whitened pool)\<rparr>,
     Some (take (nat n) (whitened pool)),
     RecordEntropyExtraction n @ SetEntropyPoolSize (int (length (whitened pool)) - n))"
  using assms
  by (auto simp: ExtractEntropy_def extraction_possible_def health_passes_def Let_def
      split: prod.split)

lemma ExtractEntropy_rct_failure [pool_simps]:
  assumes "extraction_possible pool n"
    and "\<not> snd (RCT_TestBlock (pool_rct pool) (take (nat n) (whitened pool)))"
  shows "ExtractEntropy pool n =
    (pool\<lparr>pool_rct := RCT_Reset
            (fst (RCT_TestBlock (pool_rct pool) (take (nat n) (whitened pool))))\<rparr>,
     None, RecordContinuousRCTFailure @ RecordEventDropped ''rct_failure'')"
  using assms
  by (auto simp: ExtractEntropy_def extraction_possible_def Let_def split: prod.split)

lemma ExtractEntropy_apt_failure [pool_simps]:
  assumes "extraction_possible pool n"
    and "snd (RCT_TestBlock (pool_rct pool) (take (nat n) (whitened pool)))"
    and "\<not> snd (APT_TestBlock (pool_apt pool) (take (nat n) (whitened pool)))"
  shows "ExtractEntropy pool n =
    (pool\<lparr>pool_rct := fst (RCT_TestBlock (pool_rct pool) (take (nat n) (whitened pool))),
          pool_apt := APT_Reset
            (fst (APT_TestBlock (pool_apt pool) (take (nat n) (whitened pool))))\<rparr>,
     None, RecordContinuousAPTFailure @ RecordEventDropped ''apt_failure'')"
  using assms
  by (auto simp: ExtractEntropy_def extraction_possible_def Let_def split: prod.split)

text \<open>The four outcomes of an extraction, as a case distinction.\<close>

lemma ExtractEntropy_cases:
  obtains (impossible) "\<not> extraction_possible pool n"
  | (released) "extraction_possible pool n" "health_passes pool (take (nat n) (whitened pool))"
  | (rct_failure) "extraction_possible pool n"
      "\<not> snd (RCT_TestBlock (pool_rct pool) (take (nat n) (whitened pool)))"
  | (apt_failure) "extraction_possible pool n"
      "snd (RCT_TestBlock (pool_rct pool) (take (nat n) (whitened pool)))"
      "\<not> snd (APT_TestBlock (pool_apt pool) (take (nat n) (whitened pool)))"
  unfolding health_passes_def by blast

subsection \<open>Invariant\<close>

definition pool_invar :: "WhitenedPool \<Rightarrow> bool" where
  "pool_invar pool \<longleftrightarrow>
     0 < minPoolSize pool \<and> minPoolSize pool \<le> maxPoolSize pool \<and>
     int (length (whitened pool)) \<le> maxPoolSize pool \<and>
     maxRawEvents pool = 4096 \<and> length (rawEvents pool) \<le> 4096 \<and>
     rct_invar (pool_rct pool) \<and> rct_cutoff (pool_rct pool) = 40 \<and>
     apt_invar (pool_apt pool) \<and> apt_cutoff (pool_apt pool) = 605 \<and>
     apt_windowSize (pool_apt pool) = 4096"

lemma RCT_TestBlock_cutoff [simp]: "rct_cutoff (fst (RCT_TestBlock rct xs)) = rct_cutoff rct"
proof (induction xs arbitrary: rct)
  case (Cons x xs)
  have "rct_cutoff (fst (RCT_Test rct x)) = rct_cutoff rct" by (simp add: RCT_Test_def Let_def)
  with Cons show ?case by (auto split: prod.split)
qed simp

lemma APT_TestBlock_config:
  "apt_cutoff (fst (APT_TestBlock apt xs)) = apt_cutoff apt \<and>
   apt_windowSize (fst (APT_TestBlock apt xs)) = apt_windowSize apt"
proof (induction xs arbitrary: apt)
  case (Cons x xs)
  have "apt_cutoff (fst (APT_Test apt x)) = apt_cutoff apt"
    "apt_windowSize (fst (APT_Test apt x)) = apt_windowSize apt"
    by (simp_all add: APT_Test_def Let_def)
  with Cons show ?case by (auto split: prod.split)
qed simp

lemmas APT_TestBlock_configs [simp] =
  APT_TestBlock_config[THEN conjunct1] APT_TestBlock_config[THEN conjunct2]

lemma new_pool_invar: "pool_invar (NewWhitenedPoolWithBounds minSize maxSize)"
  by (simp add: pool_invar_def NewWhitenedPoolWithBounds_def Let_def defaultMinWhitenedBytes_def
      defaultMaxRawEventsStored_def NewRepetitionCountTest_def NewAdaptiveProportionTest_def
      rct_invar_def apt_invar_def)

lemma NewWhitenedPool_invar: "pool_invar (NewWhitenedPool minSize)"
  by (simp add: NewWhitenedPool_def Let_def new_pool_invar)

lemma AddBatch_invar: "pool_invar pool \<Longrightarrow> pool_invar (fst (AddBatch pool events))"
  using length_keep_newest[of "maxRawEvents pool" "rawEvents pool @ events"]
    length_keep_newest[of "maxPoolSize pool" "whitened pool @ batch_bytes events"]
  by (auto simp: pool_invar_def AddBatch_pool)

lemma ExtractEntropy_invar: "pool_invar pool \<Longrightarrow> pool_invar (fst (ExtractEntropy pool n))"
proof (cases pool n rule: ExtractEntropy_cases)
  case impossible
  assume "pool_invar pool"
  with impossible show ?thesis by (simp add: pool_simps)
next
  case released
  assume "pool_invar pool"
  with released show ?thesis
    by (auto simp: pool_simps pool_invar_def rct.block_invar apt.block_invar)
next
  case rct_failure
  assume "pool_invar pool"
  with rct_failure show ?thesis
    by (simp add: pool_simps pool_invar_def rct.block_invar rct.reset_invar) (simp add: RCT_Reset_def)
next
  case apt_failure
  assume "pool_invar pool"
  with apt_failure show ?thesis
    by (simp add: pool_simps pool_invar_def rct.block_invar apt.block_invar apt.reset_invar)
       (simp add: APT_Reset_def)
qed

subsection \<open>The interface of the HTTP server\<close>

text \<open>
  What a consumer of random bytes relies on: an extraction that succeeds returns the number of
  bytes asked for, taken from the front of the contents; one that fails leaves the contents; and
  the number reported as available is there to be extracted.
\<close>

locale byte_source =
  fixes ext :: "'s \<Rightarrow> int \<Rightarrow> 's \<times> byte list option \<times> metric_log"
    and available :: "'s \<Rightarrow> int"
    and contents :: "'s \<Rightarrow> byte list"
    and invar :: "'s \<Rightarrow> bool"
  assumes extract_Some: "ext s n = (s', Some bs, ms) \<Longrightarrow>
      0 < n \<and> int (length bs) = n \<and> contents s = bs @ contents s'"
    and extract_None: "ext s n = (s', None, ms) \<Longrightarrow> contents s' = contents s"
    and extract_invar: "invar s \<Longrightarrow> ext s n = (s', r, ms) \<Longrightarrow> invar s'"
    and extract_log: "ext s n = (s', r, ms) \<Longrightarrow> log_ok ms"
    and available_contents: "invar s \<Longrightarrow> 0 \<le> available s \<and> available s \<le> int (length (contents s))"
begin

lemma extract_contents:
  "ext s n = (s', r, ms) \<Longrightarrow> contents s = (case r of None \<Rightarrow> [] | Some bs \<Rightarrow> bs) @ contents s'"
  by (cases r) (auto dest: extract_Some extract_None)

lemma extract_nonpositive: "n \<le> 0 \<Longrightarrow> ext s n = (s', r, ms) \<Longrightarrow> r = None"
  by (cases r) (auto dest: extract_Some)

lemma extract_too_much: "int (length (contents s)) < n \<Longrightarrow> ext s n = (s', r, ms) \<Longrightarrow> r = None"
  by (cases r) (auto dest: extract_Some)

end

lemma ExtractEntropy_Some:
  assumes "ExtractEntropy pool n = (pool', Some bs, ms)"
  shows "extraction_possible pool n \<and> health_passes pool bs \<and> bs = take (nat n) (whitened pool) \<and>
    pool' = pool\<lparr>pool_rct := fst (RCT_TestBlock (pool_rct pool) bs),
                pool_apt := fst (APT_TestBlock (pool_apt pool) bs),
                whitened := drop (nat n) (whitened pool)\<rparr>"
  using assms by (cases pool n rule: ExtractEntropy_cases) (auto simp: pool_simps)

lemma ExtractEntropy_None:
  assumes "ExtractEntropy pool n = (pool', None, ms)"
  shows "whitened pool' = whitened pool \<and> rawEvents pool' = rawEvents pool"
  using assms by (cases pool n rule: ExtractEntropy_cases) (auto simp: pool_simps)

interpretation pool_src: byte_source ExtractEntropy AvailableEntropy whitened pool_invar
proof unfold_locales
  fix s s' n bs ms
  assume "ExtractEntropy s n = (s', Some bs, ms)"
  then show "0 < n \<and> int (length bs) = n \<and> whitened s = bs @ whitened s'"
    by (auto simp: extraction_possible_def dest!: ExtractEntropy_Some)
next
  fix s s' n r ms
  assume "ExtractEntropy s n = (s', r, ms)"
  then show "log_ok ms" using ExtractEntropy_log_ok[of s n] by simp
next
  fix s s' n r ms
  assume "pool_invar s" "ExtractEntropy s n = (s', r, ms)"
  then show "pool_invar s'" using ExtractEntropy_invar[of s n] by simp
qed (auto simp: AvailableEntropy_def pool_invar_def dest: ExtractEntropy_None)

subsection \<open>Histories of the pool\<close>

text \<open>
  A history is a sequence of the two mutating calls in the order in which they took the mutex.
  \<open>pool_run\<close> returns the final pool, the bytes released so far and the metric calls; the
  stream that was fed in is \<open>conditioned\<close>.
\<close>

datatype pool_op = PoolAdd "TDCEvent list" | PoolExtract int

fun pool_step :: "WhitenedPool \<Rightarrow> pool_op \<Rightarrow> WhitenedPool \<times> byte list \<times> metric_log" where
  "pool_step pool (PoolAdd events) = (case AddBatch pool events of (pool', ms) \<Rightarrow> (pool', [], ms))"
| "pool_step pool (PoolExtract n) =
     (case ExtractEntropy pool n of
        (pool', out, ms) \<Rightarrow> (pool', (case out of None \<Rightarrow> [] | Some bs \<Rightarrow> bs), ms))"

fun pool_run :: "WhitenedPool \<Rightarrow> pool_op list \<Rightarrow> WhitenedPool \<times> byte list \<times> metric_log" where
  "pool_run pool [] = (pool, [], [])"
| "pool_run pool (op # ops) =
     (case pool_step pool op of (pool1, out1, ms1) \<Rightarrow>
        case pool_run pool1 ops of (pool2, out2, ms2) \<Rightarrow> (pool2, out1 @ out2, ms1 @ ms2))"

fun conditioned :: "pool_op list \<Rightarrow> byte list" where
  "conditioned [] = []"
| "conditioned (PoolAdd events # ops) = batch_bytes events @ conditioned ops"
| "conditioned (PoolExtract n # ops) = conditioned ops"

fun fed_events :: "pool_op list \<Rightarrow> TDCEvent list" where
  "fed_events [] = []"
| "fed_events (PoolAdd events # ops) = events @ fed_events ops"
| "fed_events (PoolExtract n # ops) = fed_events ops"

lemma pool_step_invar: "pool_invar pool \<Longrightarrow> pool_invar (fst (pool_step pool op))"
  by (cases op) (simp_all add: AddBatch_invar ExtractEntropy_invar case_prod_beta)

lemma pool_run_invar: "pool_invar pool \<Longrightarrow> pool_invar (fst (pool_run pool ops))"
proof (induction ops arbitrary: pool)
  case (Cons op ops)
  then show ?case using pool_step_invar[of pool op] by (simp add: case_prod_beta)
qed simp

lemma pool_step_config:
  "maxPoolSize (fst (pool_step pool op)) = maxPoolSize pool \<and>
   minPoolSize (fst (pool_step pool op)) = minPoolSize pool"
proof (cases op)
  case (PoolAdd events)
  then show ?thesis by (simp add: AddBatch_pool case_prod_beta)
next
  case (PoolExtract n)
  then show ?thesis
    by (cases pool n rule: ExtractEntropy_cases) (auto simp: pool_simps case_prod_beta)
qed

lemma pool_run_config:
  "maxPoolSize (fst (pool_run pool ops)) = maxPoolSize pool \<and>
   minPoolSize (fst (pool_run pool ops)) = minPoolSize pool"
proof (induction ops arbitrary: pool)
  case (Cons op ops)
  then show ?case using pool_step_config[of pool op] by (simp add: case_prod_beta)
qed simp

lemma pool_run_log_ok: "log_ok (snd (snd (pool_run pool ops)))"
proof (induction ops arbitrary: pool)
  case (Cons op ops)
  have "log_ok (snd (snd (pool_step pool op)))"
    by (cases op) (simp_all add: AddBatch_log_ok ExtractEntropy_log_ok case_prod_beta)
  with Cons show ?case by (simp add: case_prod_beta)
qed simp

lemma keep_newest_subseq: "subseq (keep_newest mx xs) xs"
  using suffix_keep_newest[of mx xs] by (metis suffix_def subseq_append' subseq_order.refl list_emb_append2)

text \<open>
  Bytes leave the pool in the order in which they entered it, each at most once: what was
  released, followed by what is still stored, is a subsequence of what was stored before and
  fed in since. The gaps are the oldest bytes dropped at the upper bound.
\<close>

lemma pool_run_order:
  "subseq (fst (snd (pool_run pool ops)) @ whitened (fst (pool_run pool ops)))
     (whitened pool @ conditioned ops)"
proof (induction ops arbitrary: pool)
  case (Cons op ops)
  obtain pool1 out1 ms1 where step: "pool_step pool op = (pool1, out1, ms1)"
    by (cases "pool_step pool op") auto
  have IH: "subseq (fst (snd (pool_run pool1 ops)) @ whitened (fst (pool_run pool1 ops)))
     (whitened pool1 @ conditioned ops)" by (rule Cons.IH)
  show ?case
  proof (cases op)
    case (PoolAdd events)
    with step have "out1 = []" "pool1 = fst (AddBatch pool events)" by (auto split: prod.splits)
    moreover from this have "subseq (whitened pool1) (whitened pool @ batch_bytes events)"
      by (simp add: AddBatch_pool keep_newest_subseq)
    then have "subseq (whitened pool1 @ conditioned ops)
        ((whitened pool @ batch_bytes events) @ conditioned ops)"
      by (intro list_emb_append_mono) simp_all
    from subseq_order.trans[OF IH this] have
      "subseq (fst (snd (pool_run pool1 ops)) @ whitened (fst (pool_run pool1 ops)))
        (whitened pool @ conditioned (op # ops))" by (simp add: PoolAdd)
    ultimately show ?thesis using step by (simp add: case_prod_beta)
  next
    case (PoolExtract n)
    with step have "whitened pool = out1 @ whitened pool1"
      using pool_src.extract_contents[of pool n] by (auto split: prod.splits)
    with IH step PoolExtract show ?thesis
      by (simp add: case_prod_beta list_emb_append_mono[of _ out1 out1])
  qed
qed simp

text \<open>While the upper bound is never hit, nothing is lost.\<close>

lemma pool_run_lossless:
  assumes "int (length (whitened pool) + length (conditioned ops)) \<le> maxPoolSize pool"
  shows "fst (snd (pool_run pool ops)) @ whitened (fst (pool_run pool ops)) =
    whitened pool @ conditioned ops"
  using assms
proof (induction ops arbitrary: pool)
  case (Cons op ops)
  obtain pool1 out1 ms1 where step: "pool_step pool op = (pool1, out1, ms1)"
    by (cases "pool_step pool op") auto
  show ?case
  proof (cases op)
    case (PoolAdd events)
    with step have p1: "out1 = []" "pool1 = fst (AddBatch pool events)"
      by (auto split: prod.splits)
    with Cons.prems PoolAdd have "whitened pool1 = whitened pool @ batch_bytes events"
      "maxPoolSize pool1 = maxPoolSize pool"
      by (auto simp: AddBatch_pool keep_newest_id)
    with Cons.IH[of pool1] Cons.prems step PoolAdd p1(1) show ?thesis
      by (simp add: case_prod_beta)
  next
    case (PoolExtract n)
    with step have w: "whitened pool = out1 @ whitened pool1"
      using pool_src.extract_contents[of pool n] by (auto split: prod.splits)
    moreover have "maxPoolSize pool1 = maxPoolSize pool"
      using step PoolExtract
      by (cases pool n rule: ExtractEntropy_cases) (auto simp: pool_simps split: prod.splits)
    ultimately show ?thesis
      using Cons.IH[of pool1] Cons.prems step PoolExtract by (simp add: case_prod_beta)
  qed
qed simp

text \<open>The diagnostic history holds the newest 4096 events of everything fed in.\<close>

lemma pool_run_history:
  assumes "pool_invar pool"
  shows "rawEvents (fst (pool_run pool ops)) = keep_newest 4096 (rawEvents pool @ fed_events ops)"
  using assms
proof (induction ops arbitrary: pool)
  case Nil
  then show ?case by (simp add: pool_invar_def keep_newest_id)
next
  case (Cons op ops)
  obtain pool1 out1 ms1 where step: "pool_step pool op = (pool1, out1, ms1)"
    by (cases "pool_step pool op") auto
  have inv: "pool_invar pool1" using pool_step_invar[OF Cons.prems, of op] step by simp
  show ?case
  proof (cases op)
    case (PoolAdd events)
    with step have p1: "pool1 = fst (AddBatch pool events)" by (auto split: prod.splits)
    then have "rawEvents pool1 = keep_newest 4096 (rawEvents pool @ events)"
      using Cons.prems by (auto simp: AddBatch_pool pool_invar_def keep_newest_id)
    with Cons.IH[OF inv] step PoolAdd show ?thesis
      by (simp add: case_prod_beta keep_newest_append)
  next
    case (PoolExtract n)
    with step have "rawEvents pool1 = rawEvents pool"
      by (cases pool n rule: ExtractEntropy_cases) (auto simp: pool_simps split: prod.splits)
    with Cons.IH[OF inv] step PoolExtract show ?thesis by (simp add: case_prod_beta)
  qed
qed

subsection \<open>Health of the released stream\<close>

definition no_health_failure :: "metric_log \<Rightarrow> bool" where
  "no_health_failure ms \<longleftrightarrow>
     count_inc ContinuousRCTFailures ms = 0 \<and> count_inc ContinuousAPTFailures ms = 0"

lemma no_health_failure_append [simp]:
  "no_health_failure (xs @ ys) \<longleftrightarrow> no_health_failure xs \<and> no_health_failure ys"
  by (auto simp: no_health_failure_def)

lemma pool_step_health:
  assumes "pool_step pool op = (pool', out, ms)" and "no_health_failure ms"
  shows "RCT_TestBlock (pool_rct pool) out = (pool_rct pool', True) \<and>
    APT_TestBlock (pool_apt pool) out = (pool_apt pool', True)"
proof (cases op)
  case (PoolAdd events)
  with assms(1) have "out = []" "pool' = fst (AddBatch pool events)" by (auto split: prod.splits)
  then show ?thesis by (simp add: AddBatch_pool)
next
  case (PoolExtract n)
  show ?thesis
    using assms PoolExtract
    by (cases pool n rule: ExtractEntropy_cases)
       (auto simp: pool_simps health_passes_def no_health_failure_def record_defs prod_eq_iff
        split: prod.splits)
qed

text \<open>
  Across calls the tests see the released stream as one sequence: block boundaries do not
  reset them. So as long as no failure is reported the whole stream passes.
\<close>

lemma pool_run_health:
  assumes "no_health_failure (snd (snd (pool_run pool ops)))"
  shows "RCT_TestBlock (pool_rct pool) (fst (snd (pool_run pool ops))) =
      (pool_rct (fst (pool_run pool ops)), True) \<and>
    APT_TestBlock (pool_apt pool) (fst (snd (pool_run pool ops))) =
      (pool_apt (fst (pool_run pool ops)), True)"
  using assms
proof (induction ops arbitrary: pool)
  case (Cons op ops)
  obtain pool1 out1 ms1 where step: "pool_step pool op = (pool1, out1, ms1)"
    by (cases "pool_step pool op") auto
  with Cons.prems have nf: "no_health_failure ms1"
    "no_health_failure (snd (snd (pool_run pool1 ops)))"
    by (simp_all add: case_prod_beta)
  from pool_step_health[OF step nf(1)] Cons.IH[OF nf(2)] step show ?case
    by (simp add: case_prod_beta rct.block_append apt.block_append)
qed simp

text \<open>
  A block with a run of the cutoff length inside fails the repetition count test whatever the
  samples before it were.
\<close>

lemma RCT_TestBlock_repeat:
  assumes "rct_invar rct" and "snd (RCT_TestBlock rct (replicate (Suc k) x))"
  shows "rct_initialized (fst (RCT_TestBlock rct (replicate (Suc k) x))) \<and>
    rct_lastSample (fst (RCT_TestBlock rct (replicate (Suc k) x))) = x \<and>
    int (Suc k) \<le> rct_repeatCount (fst (RCT_TestBlock rct (replicate (Suc k) x)))"
  using assms(2)
proof (induction k)
  case 0
  with assms(1) show ?case
    by (auto simp: RCT_Test_def Let_def rct_invar_def split: prod.splits if_splits)
next
  case (Suc k)
  have rep: "replicate (Suc (Suc k)) x = replicate (Suc k) x @ [x]"
    by (simp add: replicate_append_same)
  obtain r ok where r: "RCT_TestBlock rct (replicate (Suc k) x) = (r, ok)" by fastforce
  have ok: ok using Suc.prems r unfolding rep rct.block_snoc by (simp split: if_splits)
  then have "rct_initialized r" "rct_lastSample r = x" "int (Suc k) \<le> rct_repeatCount r"
    using Suc.IH r by auto
  then show ?case unfolding rep rct.block_snoc r using ok by (simp add: RCT_Test_def Let_def)
qed

lemma RCT_TestBlock_inner_run:
  assumes "rct_invar rct" and "2 \<le> rct_cutoff rct"
    and "sublist (replicate (nat (rct_cutoff rct)) x) bs"
  shows "\<not> snd (RCT_TestBlock rct bs)"
proof
  assume pass: "snd (RCT_TestBlock rct bs)"
  define c where "c = nat (rct_cutoff rct) - 2"
  have nc: "nat (rct_cutoff rct) = Suc (Suc c)" using assms(2) by (simp add: c_def)
  from assms(3) obtain as cs where bs: "bs = (as @ replicate (Suc (Suc c)) x) @ cs"
    by (auto simp: sublist_def nc)
  have rep: "replicate (Suc (Suc c)) x = replicate (Suc c) x @ [x]"
    by (simp add: replicate_append_same)
  obtain r ok where r: "RCT_TestBlock rct as = (r, ok)" by fastforce
  have "snd (RCT_TestBlock rct (as @ replicate (Suc (Suc c)) x))"
    using rct.block_prefix_passes pass unfolding bs by blast
  then have p: "snd (RCT_TestBlock r (replicate (Suc c) x @ [x]))"
    unfolding rct.block_append[of _ as] r rep by (simp split: if_splits)
  have rinv: "rct_invar r" "rct_cutoff r = rct_cutoff rct"
    using rct.block_invar[OF assms(1), of as] RCT_TestBlock_cutoff[of rct as] r by simp_all
  obtain q ok' where q: "RCT_TestBlock r (replicate (Suc c) x) = (q, ok')" by fastforce
  have ok': ok' using rct.block_prefix_passes[OF p] q by simp
  then have "rct_initialized q \<and> rct_lastSample q = x \<and> int (Suc c) \<le> rct_repeatCount q"
    using RCT_TestBlock_repeat[OF rinv(1), of c x] q by simp
  moreover have "rct_cutoff q = rct_cutoff rct"
    using RCT_TestBlock_cutoff[of r "replicate (Suc c) x"] q rinv(2) by simp
  ultimately show False
    using p ok' nc unfolding rct.block_snoc q by (auto simp: RCT_Test_def Let_def)
qed

text \<open>Only the arrival of new bytes can move such a block: extractions cannot.\<close>

lemma ExtractEntropy_blocked:
  assumes "pool_invar pool" and "sublist (replicate 40 x) (take (nat n) (whitened pool))"
  shows "\<exists>rct ms. ExtractEntropy pool n = (pool\<lparr>pool_rct := rct\<rparr>, None, ms)"
proof -
  have "\<not> snd (RCT_TestBlock (pool_rct pool) (take (nat n) (whitened pool)))"
    using assms RCT_TestBlock_inner_run[of "pool_rct pool" x] by (auto simp: pool_invar_def)
  then show ?thesis
    by (cases pool n rule: ExtractEntropy_cases) (auto simp: pool_simps health_passes_def intro: exI[of _ "pool_rct pool"])
qed

lemma extractions_blocked:
  assumes "pool_invar pool" and "\<forall>n \<in> set ns. sublist (replicate 40 x) (take (nat n) (whitened pool))"
  shows "fst (snd (pool_run pool (map PoolExtract ns))) = [] \<and>
    whitened (fst (pool_run pool (map PoolExtract ns))) = whitened pool"
  using assms
proof (induction ns arbitrary: pool)
  case (Cons n ns)
  obtain rct ms where e: "ExtractEntropy pool n = (pool\<lparr>pool_rct := rct\<rparr>, None, ms)"
    using ExtractEntropy_blocked[OF Cons.prems(1)] Cons.prems(2) by fastforce
  have "pool_invar (pool\<lparr>pool_rct := rct\<rparr>)"
    using ExtractEntropy_invar[OF Cons.prems(1), of n] e by simp
  with Cons.IH[of "pool\<lparr>pool_rct := rct\<rparr>"] Cons.prems(2) e show ?case
    by (simp add: case_prod_beta)
qed simp

subsection \<open>Properties\<close>

text \<open>C22: No history of calls leaves the configured bounds: from a pool made with any arguments, every
  sequence of batches and extractions keeps the reserve positive and at most the upper bound,
  at most that many conditioned bytes and at most 4096 raw events, both health tests in a
  consistent state, and makes only metric calls that fit the registered metrics.\<close>

theorem pool_history_invariant:
  "pool_invar (fst (pool_run (NewWhitenedPoolWithBounds minSize maxSize) ops)) \<and>
   pool_invar (fst (pool_run (NewWhitenedPool minSize) ops)) \<and>
   log_ok (snd (snd (pool_run pool ops)))"
  using pool_run_invar[OF new_pool_invar] pool_run_invar[OF NewWhitenedPool_invar] pool_run_log_ok
  by blast

text \<open>C8: Entropy leaves the pool in the order in which it was produced and no byte leaves twice: the
  released bytes followed by the stored ones are a subsequence of what was stored before and
  conditioned since, and they are all of it while the upper bound is not exceeded.\<close>

theorem pool_releases_in_order:
  "subseq (fst (snd (pool_run pool ops)) @ whitened (fst (pool_run pool ops)))
     (whitened pool @ conditioned ops) \<and>
   (int (length (whitened pool) + length (conditioned ops)) > maxPoolSize pool \<or>
    fst (snd (pool_run pool ops)) @ whitened (fst (pool_run pool ops)) = whitened pool @ conditioned ops)"
  using pool_run_order pool_run_lossless[of pool ops] by fastforce

text \<open>C9: As long as no health failure is reported, the bytes released over any number of extractions
  by a pool with fresh tests, taken as one stream, contain no byte repeated 40 times in a row,
  and in every complete window of 4096 released bytes the first one occurs fewer than 605 times.\<close>

theorem released_stream_healthy:
  assumes "pool_rct pool = NewRepetitionCountTest 40"
    and "pool_apt pool = NewAdaptiveProportionTest 605 4096"
    and "no_health_failure (snd (snd (pool_run pool ops)))"
  shows "(\<nexists>x. sublist (replicate 40 x) (fst (snd (pool_run pool ops)))) \<and>
    list_all (\<lambda>w. int (count_list w (hd w)) < 605) (windows 4096 (fst (snd (pool_run pool ops))))"
proof -
  have "snd (RCT_TestBlock (NewRepetitionCountTest 40) (fst (snd (pool_run pool ops))))"
    "snd (APT_TestBlock (NewAdaptiveProportionTest 605 4096) (fst (snd (pool_run pool ops))))"
    using pool_run_health[OF assms(3)] unfolding assms(1,2) by simp_all
  moreover have "apt_at_boundary (NewAdaptiveProportionTest 605 4096)"
    by (simp add: apt_at_boundary_def NewAdaptiveProportionTest_def)
  ultimately show ?thesis
    using RCT_TestBlock_runs[of 40 "fst (snd (pool_run pool ops))"]
      APT_TestBlock_windows[of "NewAdaptiveProportionTest 605 4096" "fst (snd (pool_run pool ops))"]
    by (simp add: NewAdaptiveProportionTest_def)
qed

definition sample_pool :: WhitenedPool where
  "sample_pool = (NewWhitenedPoolWithBounds 2 8)\<lparr>whitened := [1, 2, 2, 3]\<rparr>"

lemma sample_pool_fields [simp]:
  "whitened sample_pool = [1, 2, 2, 3]" "minPoolSize sample_pool = 2"
  "pool_rct sample_pool = NewRepetitionCountTest 40"
  "pool_apt sample_pool = NewAdaptiveProportionTest 605 4096"
  by (simp_all add: sample_pool_def NewWhitenedPoolWithBounds_def Let_def)

lemma sample_pool_run:
  "fst (snd (pool_run sample_pool [PoolExtract 3])) = [1, 2, 2] \<and>
   no_health_failure (snd (snd (pool_run sample_pool [PoolExtract 3])))"
proof -
  have "extraction_possible sample_pool 3" by (simp add: extraction_possible_def)
  moreover have "health_passes sample_pool (take (nat 3) (whitened sample_pool))"
    by (simp add: health_passes_def NewRepetitionCountTest_def NewAdaptiveProportionTest_def
        RCT_Test_def APT_Test_def Let_def)
  ultimately show ?thesis
    using ExtractEntropy_released[of sample_pool 3]
    by (simp add: no_health_failure_def record_defs)
qed

theorem released_stream_healthy_witness:
  "fst (snd (pool_run sample_pool [PoolExtract 3])) = [1, 2, 2] \<and>
   (\<nexists>x. sublist (replicate 40 x) (fst (snd (pool_run sample_pool [PoolExtract 3])))) \<and>
   list_all (\<lambda>w. int (count_list w (hd w)) < 605)
     (windows 4096 (fst (snd (pool_run sample_pool [PoolExtract 3]))))"
  using released_stream_healthy[of sample_pool "[PoolExtract 3]"] sample_pool_run
  by (simp only: sample_pool_fields simp_thms)

text \<open>C13: What one extraction does is decided by the stream released so far: after any history of a pool
  with fresh tests in which no health failure was reported, a request is granted exactly when it
  is positive, the pool holds its reserve and enough bytes, and the released stream continued by
  the bytes asked for has no byte 40 times in a row and no complete window of 4096 bytes with 605
  or more occurrences of its first byte. It then gets those bytes; otherwise it gets nothing, the
  stored bytes stay, and the failure is counted for the test that failed, the repetition test
  first.\<close>

theorem extraction_decided_by_stream:
  assumes "pool_rct pool = NewRepetitionCountTest 40"
    and "pool_apt pool = NewAdaptiveProportionTest 605 4096"
    and "pool_run pool ops = (p, released, ms)" and "no_health_failure ms"
    and "ExtractEntropy p n = (p', out, ms')"
  defines "asked \<equiv> take (nat n) (whitened p)"
    and "possible \<equiv> 0 < n \<and> minPoolSize p \<le> int (length (whitened p)) \<and> n \<le> int (length (whitened p))"
    and "repeats \<equiv> \<lambda>bs. \<exists>x. sublist (replicate 40 x) bs"
    and "biased \<equiv> \<lambda>bs. list_ex (\<lambda>w. 605 \<le> int (count_list w (hd w))) (windows 4096 bs)"
  shows "out = (if possible \<and> \<not> repeats (released @ asked) \<and> \<not> biased (released @ asked)
                then Some asked else None) \<and>
    whitened p = (case out of None \<Rightarrow> [] | Some bs \<Rightarrow> bs) @ whitened p' \<and>
    count_inc ContinuousRCTFailures ms' = of_bool (possible \<and> repeats (released @ asked)) \<and>
    count_inc ContinuousAPTFailures ms' =
      of_bool (possible \<and> \<not> repeats (released @ asked) \<and> biased (released @ asked))"
proof -
  let ?rct = "NewRepetitionCountTest 40" and ?apt = "NewAdaptiveProportionTest 605 4096"
  have h: "RCT_TestBlock ?rct released = (pool_rct p, True)" "APT_TestBlock ?apt released = (pool_apt p, True)"
    using pool_run_health[of pool ops] assms(1-4) by simp_all
  have b: "apt_at_boundary ?apt" by (simp add: apt_at_boundary_def NewAdaptiveProportionTest_def)
  have r: "snd (RCT_TestBlock (pool_rct p) asked) \<longleftrightarrow> \<not> repeats (released @ asked)"
    using RCT_TestBlock_runs[of 40 "released @ asked"] h(1)
    by (simp add: rct.block_append repeats_def case_prod_beta)
  have a: "snd (APT_TestBlock (pool_apt p) asked) \<longleftrightarrow> \<not> biased (released @ asked)"
    using APT_TestBlock_windows[OF b, of "released @ asked"] h(2)
    by (simp add: apt.block_append biased_def case_prod_beta NewAdaptiveProportionTest_def list_ex_iff list_all_iff not_le)
  have c: "whitened p = (case out of None \<Rightarrow> [] | Some bs \<Rightarrow> bs) @ whitened p'"
    using pool_src.extract_contents[OF assms(5)] .
  have poss: "possible \<longleftrightarrow> extraction_possible p n" by (simp add: possible_def extraction_possible_def)
  show ?thesis
  proof (intro conjI c)
    show "out = (if possible \<and> \<not> repeats (released @ asked) \<and> \<not> biased (released @ asked)
        then Some asked else None)"
      "count_inc ContinuousRCTFailures ms' = of_bool (possible \<and> repeats (released @ asked))"
      "count_inc ContinuousAPTFailures ms' =
        of_bool (possible \<and> \<not> repeats (released @ asked) \<and> biased (released @ asked))"
      using assms(5) r a unfolding poss asked_def
      by (cases p n rule: ExtractEntropy_cases;
          auto simp: pool_simps health_passes_def record_defs)+
  qed
qed

theorem extraction_decided_by_stream_witness:
  "\<exists>p' ms'. ExtractEntropy sample_pool 3 = (p', Some [1, 2, 2], ms') \<and> whitened p' = [3] \<and>
     \<not> (\<exists>x. sublist (replicate 40 x) [1 :: byte, 2, 2]) \<and> count_inc ContinuousRCTFailures ms' = 0"
proof -
  obtain p' out ms' where e: "ExtractEntropy sample_pool 3 = (p', out, ms')"
    by (cases "ExtractEntropy sample_pool 3") auto
  have run: "pool_run sample_pool [] = (sample_pool, [], [])" by simp
  have short: "\<not> sublist (replicate 40 x) [1 :: byte, 2, 2]" for x
    by (auto dest!: sublist_length_le)
  have win: "windows 4096 [1 :: byte, 2, 2] = []" by (simp add: windows.simps)
  have "no_health_failure []" by (simp add: no_health_failure_def)
  from extraction_decided_by_stream[OF sample_pool_fields(3,4) run this e] short win
  have "out = Some [1, 2, 2]" "whitened sample_pool = (case out of None \<Rightarrow> [] | Some bs \<Rightarrow> bs) @ whitened p'"
    "count_inc ContinuousRCTFailures ms' = 0"
    by (simp_all add: numeral_3_eq_3)
  with e short show ?thesis by simp
qed

text \<open>C23: Each non-empty batch adds exactly 32 conditioned bytes, the SHA-256 hash of the parity fold
  of its little-endian timestamps, and keeps the newest bytes and the newest 4096 events within
  the bounds; an empty batch changes nothing.\<close>

theorem AddBatch_adds_32_bytes:
  "fst (AddBatch pool events) =
     (if events = [] then pool
      else pool\<lparr>rawEvents := keep_newest (maxRawEvents pool) (rawEvents pool @ events),
               whitened := keep_newest (maxPoolSize pool) (whitened pool @
                 Sum256 (ParityPreprocess (concat (map (\<lambda>e. PutUint64 (TdcTimestampPs e)) events))))\<rparr>) \<and>
   length (batch_bytes events) = (if events = [] then 0 else 32)"
  using batch_bytes_sha[of events] by (simp add: AddBatch_pool length_batch_bytes batch_raw_bytes_def)

text \<open>The raw history is the newest 4096 events of everything ever fed in, whatever extractions
  happen in between.\<close>

theorem raw_history_newest:
  "rawEvents (fst (pool_run (NewWhitenedPoolWithBounds minSize maxSize) ops)) =
     keep_newest 4096 (fed_events ops)"
  using pool_run_history[OF new_pool_invar, of minSize maxSize ops]
  by (simp add: NewWhitenedPoolWithBounds_def Let_def)

text \<open>C37: Resetting the test does not clear a fault that sits in the stored bytes: if one value occurs 40
  times in a row among them, then of any sequence of requests that all reach past that run, with
  no batch and no smaller request in between, none releases a byte, and the stored bytes stay as
  they are.\<close>

theorem stored_fault_blocks_extraction:
  assumes "pool_invar pool" and "whitened pool = before @ replicate 40 x @ after"
    and "\<forall>n \<in> set ns. int (length before) + 40 \<le> n"
  shows "fst (snd (pool_run pool (map PoolExtract ns))) = [] \<and>
    whitened (fst (pool_run pool (map PoolExtract ns))) = whitened pool"
proof -
  have "sublist (replicate 40 x) (take (nat n) (whitened pool))" if "n \<in> set ns" for n
  proof -
    have "length before + 40 \<le> nat n" using assms(3) that by auto
    then have "take (nat n) (whitened pool) = before @ replicate 40 x @ take (nat n - length before - 40) after"
      by (simp add: assms(2))
    then show ?thesis by (auto simp: sublist_def)
  qed
  then show ?thesis using extractions_blocked[OF assms(1)] by blast
qed

theorem stored_fault_blocks_extraction_witness:
  "fst (snd (pool_run ((NewWhitenedPoolWithBounds 32 128)\<lparr>whitened := replicate 64 9\<rparr>)
     (map PoolExtract [40, 50, 64, 40]))) = []"
proof -
  let ?p = "(NewWhitenedPoolWithBounds 32 128)\<lparr>whitened := replicate 64 9\<rparr>"
  have i: "pool_invar ?p"
    using new_pool_invar[of 32 128]
    by (simp add: pool_invar_def NewWhitenedPoolWithBounds_def Let_def defaultMaxRawEventsStored_def)
  have "whitened ?p = [] @ replicate 40 9 @ replicate 24 9" by (simp add: replicate_add[symmetric])
  from stored_fault_blocks_extraction[OF i this, of "[40, 50, 64, 40]"] show ?thesis by simp
qed

text \<open>The reserve guards the start of an extraction only: a pool at exactly its reserve reports no
  available entropy and still releases all of it to one request that the health tests accept.\<close>

theorem reserve_can_be_drained:
  assumes "pool_invar pool" and "int (length (whitened pool)) = minPoolSize pool"
    and "health_passes pool (whitened pool)"
  shows "AvailableEntropy pool = 0 \<and>
    fst (snd (ExtractEntropy pool (minPoolSize pool))) = Some (whitened pool) \<and>
    whitened (fst (ExtractEntropy pool (minPoolSize pool))) = []"
proof -
  have "extraction_possible pool (minPoolSize pool)"
    using assms(1,2) by (simp add: extraction_possible_def pool_invar_def)
  moreover have "take (nat (minPoolSize pool)) (whitened pool) = whitened pool"
    "drop (nat (minPoolSize pool)) (whitened pool) = []"
    using assms(2) by simp_all
  ultimately show ?thesis
    using assms ExtractEntropy_released[of pool "minPoolSize pool"] by (simp add: AvailableEntropy_def)
qed

theorem reserve_can_be_drained_witness:
  "AvailableEntropy ((NewWhitenedPoolWithBounds 2 8)\<lparr>whitened := [1, 2]\<rparr>) = 0 \<and>
   fst (snd (ExtractEntropy ((NewWhitenedPoolWithBounds 2 8)\<lparr>whitened := [1, 2]\<rparr>) 2)) = Some [1, 2] \<and>
   whitened (fst (ExtractEntropy ((NewWhitenedPoolWithBounds 2 8)\<lparr>whitened := [1, 2]\<rparr>) 2)) = []"
proof -
  let ?p = "(NewWhitenedPoolWithBounds 2 8)\<lparr>whitened := [1, 2]\<rparr>"
  have m: "minPoolSize ?p = 2" "whitened ?p = [1, 2]"
    by (simp_all add: NewWhitenedPoolWithBounds_def Let_def)
  have "pool_invar ?p"
    using new_pool_invar[of 2 8] by (simp add: pool_invar_def NewWhitenedPoolWithBounds_def Let_def defaultMaxRawEventsStored_def)
  moreover have "health_passes ?p (whitened ?p)"
    by (simp add: health_passes_def NewWhitenedPoolWithBounds_def NewRepetitionCountTest_def
        NewAdaptiveProportionTest_def RCT_Test_def APT_Test_def Let_def)
  ultimately show ?thesis using reserve_can_be_drained[of ?p] unfolding m by simp
qed

end
