(* ===== verification/Token_Bucket.thy ===== *)
theory Token_Bucket
  imports Go_Float
begin

text \<open>
  The token bucket of \<^verbatim>\<open>internal/entropy/http_entropy_server.go\<close> in binary64 arithmetic. Times are
  nanoseconds read from the clock; \<^verbatim>\<open>Time.Sub\<close> saturates at the range of a duration. The lemmas
  bound what the limiter admits over any sequence of clock readings, rounding included, and show
  that a client that honours the wait it is told is admitted.
\<close>

subsection \<open>State and operations\<close>

record tokenBucket =
  tb_capacity :: rat
  tb_tokens :: rat
  tb_refillRate :: rat
  tb_lastRefill :: int

definition newTokenBucket :: "rat \<Rightarrow> rat \<Rightarrow> int \<Rightarrow> tokenBucket" where
  "newTokenBucket rate burst now =
     (let rate1 = (if rate \<le> 0 then 1 else rate);
          burst1 = (if burst \<le> 0 then rate1 else burst)
      in \<lparr>tb_capacity = burst1, tb_tokens = burst1, tb_refillRate = rate1, tb_lastRefill = now\<rparr>)"

definition time_Sub :: "int \<Rightarrow> int \<Rightarrow> int" where
  "time_Sub t u = max min_int64 (min max_int64 (t - u))"

text \<open>A conversion to an integer type drops the fraction.\<close>

definition trunc_float :: "rat \<Rightarrow> int" where
  "trunc_float x = (if x < 0 then \<lceil>x\<rceil> else \<lfloor>x\<rfloor>)"

definition tb_refill :: "tokenBucket \<Rightarrow> int \<Rightarrow> tokenBucket" where
  "tb_refill b now =
     (let elapsed = time_Sub now (tb_lastRefill b)
      in if elapsed > 0 then
           let refill = round64 (Seconds elapsed * tb_refillRate b);
               b1 = (if refill > 0
                     then b\<lparr>tb_tokens := min (tb_capacity b) (round64 (tb_tokens b + refill))\<rparr>
                     else b)
           in b1\<lparr>tb_lastRefill := now\<rparr>
         else b)"

definition Allow :: "tokenBucket \<Rightarrow> int \<Rightarrow> tokenBucket \<times> bool \<times> int" where
  "Allow b now =
     (let b1 = tb_refill b now
      in if tb_tokens b1 \<ge> 1 then
           (b1\<lparr>tb_tokens := round64 (tb_tokens b1 - 1)\<rparr>, True, 0)
         else
           let deficit = round64 (1 - tb_tokens b1);
               deficit1 = (if deficit < 0 then 0 else deficit);
               waitSeconds = round64 (deficit1 / tb_refillRate b1);
               waitSeconds1 = (if waitSeconds < 0 then 0 else waitSeconds);
               waitDuration = trunc_float (round64 (waitSeconds1 * float64_of_int second));
               waitDuration1 = (if waitDuration < second then second else waitDuration)
           in (b1, False, waitDuration1))"

subsection \<open>Invariant\<close>

text \<open>
  The server builds its bucket from two positive integers; then the level stays between zero
  and the capacity.
\<close>

definition tb_invar :: "tokenBucket \<Rightarrow> bool" where
  "tb_invar b \<longleftrightarrow> 1 \<le> tb_refillRate b \<and> 1 \<le> tb_capacity b \<and>
     round64 (tb_capacity b) = tb_capacity b \<and>
     0 \<le> tb_tokens b \<and> tb_tokens b \<le> tb_capacity b"

lemma newTokenBucket_invar:
  assumes "1 \<le> rps" "1 \<le> burst" "burst \<le> 2 ^ 53"
  shows "tb_invar (newTokenBucket (float64_of_int rps) (float64_of_int burst) now)"
proof -
  have b: "float64_of_int burst = of_int burst" using assms by (intro float64_of_int_exact) simp
  have "1 \<le> float64_of_int rps"
    unfolding float64_of_int_def using assms(1) by (intro f64.rnd_ge_one) simp
  then show ?thesis
    using assms f64.rnd_int[of burst] by (simp add: newTokenBucket_def tb_invar_def Let_def b)
qed

lemma tb_refill_fields [simp]:
  "tb_capacity (tb_refill b now) = tb_capacity b"
  "tb_refillRate (tb_refill b now) = tb_refillRate b"
  by (simp_all add: tb_refill_def Let_def)

lemma tb_refill_invar: "tb_invar b \<Longrightarrow> tb_invar (tb_refill b now)"
  by (auto simp: tb_refill_def Let_def tb_invar_def f64.rnd_nonneg)

lemma Allow_invar:
  assumes "tb_invar b"
  shows "tb_invar (fst (Allow b now))"
proof -
  let ?b = "tb_refill b now"
  have inv: "tb_invar ?b" using assms by (rule tb_refill_invar)
  have "tb_invar (?b\<lparr>tb_tokens := round64 (tb_tokens ?b - 1)\<rparr>)" if "1 \<le> tb_tokens ?b"
  proof -
    have "round64 (tb_tokens ?b - 1) \<le> round64 (tb_capacity ?b)"
      using inv by (intro f64.rnd_mono) (simp add: tb_invar_def)
    with inv that show ?thesis by (simp add: tb_invar_def f64.rnd_nonneg)
  qed
  with inv show ?thesis by (simp add: Allow_def Let_def)
qed

subsection \<open>What is admitted\<close>

lemma round64_le_mult: "0 \<le> x \<Longrightarrow> round64 x \<le> x * (1 + 1 / 2 ^ 53)"
  using f64.rnd_le[of x] by (simp add: distrib_left)

lemma Seconds_bound:
  assumes "0 \<le> d" "d \<le> max_int64"
  shows "Seconds d \<le> of_int d / 10 ^ 9 * (1 + 1 / 2 ^ 53) ^ 2"
proof -
  define q where "q = d div 10 ^ 9"
  define r where "r = d mod 10 ^ 9"
  have d: "d = q * 10 ^ 9 + r" unfolding q_def r_def by simp
  have q: "0 \<le> q" "q \<le> 2 ^ 53" and r: "0 \<le> r" "r < 10 ^ 9"
    using assms by (auto simp: q_def r_def max_int64_def)
  have rr: "float64_of_int r = of_int r" using r by (intro float64_of_int_exact) simp
  have qq: "float64_of_int q = of_int q" using q by (intro float64_of_int_exact) simp
  define u where "u = (1 / 2 ^ 53 :: rat)"
  have u: "0 \<le> u" by (simp add: u_def)
  have "round64 (of_int r / 10 ^ 9) \<le> of_int r / 10 ^ 9 * (1 + u)"
    unfolding u_def using r by (intro round64_le_mult) simp
  then have inner: "of_int q + round64 (of_int r / 10 ^ 9) \<le> of_int d / 10 ^ 9 * (1 + u)"
    using q(1) u by (simp add: d algebra_simps add_divide_distrib add_increasing)
  have nn: "0 \<le> of_int q + round64 (of_int r / 10 ^ 9)"
    using q r by (simp add: f64.rnd_nonneg)
  have "go_div d second = q" "go_mod d second = r"
    using assms(1) by (simp_all add: second_def go_div_nonneg go_mod_nonneg q_def r_def)
  then have "Seconds d = round64 (of_int q + round64 (of_int r / 10 ^ 9))"
    unfolding Seconds_def by (simp only: qq rr)
  also have "\<dots> \<le> (of_int q + round64 (of_int r / 10 ^ 9)) * (1 + u)"
    unfolding u_def using nn by (rule round64_le_mult)
  also have "\<dots> \<le> of_int d / 10 ^ 9 * (1 + u) * (1 + u)"
    using inner u by (intro mult_right_mono) simp_all
  finally show ?thesis by (simp add: u_def power2_eq_square)
qed

lemma tb_lastRefill_refill:
  "in_int64 (now - tb_lastRefill b) \<Longrightarrow> tb_lastRefill (tb_refill b now) = max (tb_lastRefill b) now"
  by (auto simp: tb_refill_def Let_def time_Sub_def in_int64_def)

lemma tb_lastRefill_Allow:
  "in_int64 (now - tb_lastRefill b) \<Longrightarrow> tb_lastRefill (fst (Allow b now)) = max (tb_lastRefill b) now"
  by (simp add: Allow_def Let_def tb_lastRefill_refill)

definition ulp_sum :: rat where
  "ulp_sum = 1 + 1 / 2 ^ 50"

lemma tb_refill_bound:
  assumes "tb_invar b" and "in_int64 (now - tb_lastRefill b)"
  shows "tb_tokens (tb_refill b now) \<le> tb_tokens b + tb_capacity b / 2 ^ 53 +
    of_int (max (tb_lastRefill b) now - tb_lastRefill b) / 10 ^ 9 * tb_refillRate b * ulp_sum"
    (is "_ \<le> _ + _ + ?gain")
proof (cases "now \<le> tb_lastRefill b")
  case True
  with assms show ?thesis
    by (auto simp: tb_refill_def Let_def time_Sub_def min_int64_def max_int64_def tb_invar_def)
next
  case False
  define d where "d = now - tb_lastRefill b"
  define u where "u = (1 / 2 ^ 53 :: rat)"
  define x where "x = of_int d / 10 ^ 9 * tb_refillRate b"
  define f where "f = round64 (Seconds d * tb_refillRate b)"
  have d: "0 < d" "d \<le> max_int64" "time_Sub now (tb_lastRefill b) = d"
    using False assms(2) by (auto simp: d_def time_Sub_def in_int64_def min_int64_def)
  have u: "0 \<le> u" by (simp add: u_def)
  have rate: "1 \<le> tb_refillRate b" and cap: "0 \<le> tb_tokens b" "tb_tokens b \<le> tb_capacity b"
    using assms(1) by (auto simp: tb_invar_def)
  have x: "0 \<le> x" using d rate by (simp add: x_def)
  have s0: "0 \<le> Seconds d * tb_refillRate b" using d rate by (simp add: Seconds_nonneg)
  have "f \<le> Seconds d * tb_refillRate b * (1 + u)"
    unfolding f_def u_def using s0 by (rule round64_le_mult)
  also have "\<dots> \<le> (of_int d / 10 ^ 9 * (1 + u) ^ 2) * tb_refillRate b * (1 + u)"
    using Seconds_bound[of d] d rate u by (intro mult_right_mono) (simp_all add: u_def)
  also have "\<dots> = x * (1 + u) ^ 3" by (simp add: x_def power3_eq_cube power2_eq_square)
  finally have f: "f \<le> x * (1 + u) ^ 3" .
  have f0: "0 \<le> f" unfolding f_def using s0 by (rule f64.rnd_nonneg)
  have "round64 (tb_tokens b + f) \<le> (tb_tokens b + f) * (1 + u)"
    unfolding u_def using cap f0 by (intro round64_le_mult) simp
  also have "\<dots> = tb_tokens b + tb_tokens b * u + f * (1 + u)" by (simp add: algebra_simps)
  also have "\<dots> \<le> tb_tokens b + tb_capacity b * u + x * (1 + u) ^ 3 * (1 + u)"
    using cap f u by (intro add_mono mult_right_mono) simp_all
  also have "x * (1 + u) ^ 3 * (1 + u) = x * (1 + u) ^ 4" by (simp add: power_def numeral_eq_Suc)
  also have "x * (1 + u) ^ 4 \<le> x * ulp_sum"
    using x by (intro mult_left_mono) (simp_all add: u_def ulp_sum_def power4_eq_xxxx)
  finally have "round64 (tb_tokens b + f) \<le> tb_tokens b + tb_capacity b * u + x * ulp_sum" by simp
  moreover have "tb_tokens b \<le> tb_tokens b + tb_capacity b * u + x * ulp_sum"
    using cap u x by (simp add: ulp_sum_def add_nonneg_nonneg)
  moreover have "tb_tokens (tb_refill b now) =
      (if 0 < f then min (tb_capacity b) (round64 (tb_tokens b + f)) else tb_tokens b)"
    using d by (simp add: tb_refill_def Let_def f_def)
  ultimately have "tb_tokens (tb_refill b now) \<le> tb_tokens b + tb_capacity b * u + x * ulp_sum"
    by auto
  moreover have "?gain = x * ulp_sum" using False by (simp add: x_def d_def max_def)
  moreover have "tb_capacity b * u = tb_capacity b / 2 ^ 53" by (simp add: u_def)
  ultimately show ?thesis by linarith
qed

lemma Allow_bound:
  assumes "tb_invar b" and "in_int64 (now - tb_lastRefill b)"
  shows "tb_tokens (fst (Allow b now)) + (if fst (snd (Allow b now)) then 1 else 0) \<le>
    tb_tokens b + tb_capacity b / 2 ^ 52 +
    of_int (max (tb_lastRefill b) now - tb_lastRefill b) / 10 ^ 9 * tb_refillRate b * ulp_sum"
proof -
  let ?b = "tb_refill b now"
  have inv: "tb_invar ?b" using assms(1) by (rule tb_refill_invar)
  have "tb_tokens (fst (Allow b now)) + (if fst (snd (Allow b now)) then 1 else 0) \<le>
      tb_tokens ?b + tb_capacity b / 2 ^ 53"
  proof (cases "1 \<le> tb_tokens ?b")
    case True
    have "round64 (tb_tokens ?b - 1) \<le> tb_tokens ?b - 1 + (tb_tokens ?b - 1) / 2 ^ 53"
      using True by (intro f64.rnd_le) simp
    also have "(tb_tokens ?b - 1) / 2 ^ 53 \<le> tb_capacity b / 2 ^ 53"
      using inv by (intro divide_right_mono) (simp_all add: tb_invar_def)
    finally show ?thesis using True by (simp add: Allow_def Let_def)
  next
    case False
    with inv show ?thesis by (simp add: Allow_def Let_def tb_invar_def)
  qed
  with tb_refill_bound[OF assms] show ?thesis by (simp add: field_simps)
qed

text \<open>The requests admitted over a sequence of clock readings.\<close>

fun tb_run :: "tokenBucket \<Rightarrow> int list \<Rightarrow> tokenBucket \<times> nat" where
  "tb_run b [] = (b, 0)"
| "tb_run b (now # nows) =
     (case Allow b now of (b1, allowed, _) \<Rightarrow>
        case tb_run b1 nows of (b2, n) \<Rightarrow> (b2, (if allowed then 1 else 0) + n))"

lemma Allow_fields [simp]:
  "tb_capacity (fst (Allow b now)) = tb_capacity b"
  "tb_refillRate (fst (Allow b now)) = tb_refillRate b"
  by (simp_all add: Allow_def Let_def)

lemma tb_run_bound:
  assumes "tb_invar b" and "\<forall>t \<in> insert (tb_lastRefill b) (set nows). 0 \<le> t \<and> t \<le> max_int64"
  shows "tb_tokens (fst (tb_run b nows)) + of_nat (snd (tb_run b nows)) \<le>
      tb_tokens b + of_nat (length nows) * tb_capacity b / 2 ^ 52 +
      of_int (Max (insert (tb_lastRefill b) (set nows)) - tb_lastRefill b) / 10 ^ 9 *
        tb_refillRate b * ulp_sum"
  using assms
proof (induction nows arbitrary: b)
  case (Cons now nows)
  obtain b1 al w where A: "Allow b now = (b1, al, w)" by (cases "Allow b now") auto
  define g where "g t = of_int t / 10 ^ 9 * tb_refillRate b * ulp_sum" for t
  have rng: "in_int64 (now - tb_lastRefill b)"
    using Cons.prems(2) by (auto simp: in_int64_def max_int64_def min_int64_def)
  have b1: "tb_invar b1" "tb_capacity b1 = tb_capacity b" "tb_refillRate b1 = tb_refillRate b"
    "tb_lastRefill b1 = max (tb_lastRefill b) now"
    using Allow_invar[OF Cons.prems(1), of now] Allow_fields[of b now] tb_lastRefill_Allow[OF rng] A
    by simp_all
  let ?M = "Max (insert (tb_lastRefill b) (set (now # nows)))"
  have M: "Max (insert (tb_lastRefill b1) (set nows)) = ?M"
    by (cases "set nows = {}") (simp_all add: b1(4) max.assoc max.left_commute)
  have "tb_tokens (fst (tb_run b1 nows)) + of_nat (snd (tb_run b1 nows)) \<le>
      tb_tokens b1 + of_nat (length nows) * tb_capacity b / 2 ^ 52 + g (?M - tb_lastRefill b1)"
    using Cons.IH[OF b1(1)] Cons.prems(2) b1 M by (auto simp: g_def max_def)
  moreover have "tb_tokens b1 + (if al then 1 else 0) \<le>
      tb_tokens b + tb_capacity b / 2 ^ 52 + g (tb_lastRefill b1 - tb_lastRefill b)"
    using Allow_bound[OF Cons.prems(1) rng] A b1(4) by (simp add: g_def)
  moreover have "g (?M - tb_lastRefill b1) + g (tb_lastRefill b1 - tb_lastRefill b) =
      g (?M - tb_lastRefill b)"
    by (simp add: g_def field_simps)
  moreover have "of_nat (length (now # nows)) * tb_capacity b / 2 ^ 52 =
      of_nat (length nows) * tb_capacity b / 2 ^ 52 + tb_capacity b / 2 ^ 52"
    by (simp add: field_simps)
  moreover have "tb_tokens (fst (tb_run b (now # nows))) = tb_tokens (fst (tb_run b1 nows))"
    "of_nat (snd (tb_run b (now # nows))) = (if al then 1 else 0) + (of_nat (snd (tb_run b1 nows)) :: rat)"
    using A by (simp_all add: case_prod_beta)
  ultimately have "tb_tokens (fst (tb_run b (now # nows))) + of_nat (snd (tb_run b (now # nows))) \<le>
      tb_tokens b + of_nat (length (now # nows)) * tb_capacity b / 2 ^ 52 + g (?M - tb_lastRefill b)"
    by linarith
  then show ?case unfolding g_def .
qed simp

subsection \<open>Waiting\<close>

text \<open>
  With a rate of at least one request per second the deficit is made up within one second, so
  the reported wait is one second, the lower bound the code puts on it.
\<close>

lemma Allow_wait:
  assumes "tb_invar b" and "\<not> fst (snd (Allow b now))"
  shows "snd (snd (Allow b now)) = second"
proof -
  let ?b = "tb_refill b now"
  have inv: "tb_invar ?b" using assms(1) by (rule tb_refill_invar)
  have low: "tb_tokens ?b < 1" using assms(2) by (auto simp: Allow_def Let_def split: if_splits)
  define d where "d = round64 (1 - tb_tokens ?b)"
  have d: "0 \<le> d" "d \<le> 1"
    using inv low by (simp_all add: d_def tb_invar_def f64.rnd_nonneg f64.rnd_le_one)
  define w where "w = round64 (d / tb_refillRate b)"
  have rate: "1 \<le> tb_refillRate b" using assms(1) by (simp add: tb_invar_def)
  have w: "0 \<le> w" "w \<le> 1"
    using d rate by (auto simp: w_def divide_le_eq intro!: f64.rnd_nonneg f64.rnd_le_one)
  have sec: "float64_of_int second = of_int second"
    by (intro float64_of_int_exact) (simp add: second_def)
  have "round64 (w * of_int second) \<le> round64 (of_int second)"
    using w by (intro f64.rnd_mono) (simp add: second_def)
  also have "round64 (of_int second) = of_int second"
    by (intro f64.rnd_int) (simp add: second_def)
  finally have le: "round64 (w * of_int second) \<le> of_int second" .
  have "0 \<le> round64 (w * of_int second)" using w by (intro f64.rnd_nonneg) (simp add: second_def)
  with le have "trunc_float (round64 (w * of_int second)) \<le> second"
    by (simp add: trunc_float_def floor_le_iff)
  then show ?thesis
    using low d w by (simp add: Allow_def Let_def d_def[symmetric] w_def[symmetric] sec)
qed

lemma Seconds_ge_one: "second \<le> d \<Longrightarrow> 1 \<le> Seconds d"
proof -
  assume d: "second \<le> d"
  then have pos: "0 \<le> d" "1 \<le> d div second" "0 \<le> d mod second"
    by (simp_all add: second_def zdiv_mono1[of 1000000000 d, of 1000000000, simplified])
  have "1 \<le> float64_of_int (d div second)"
    unfolding float64_of_int_def using pos(2) by (intro f64.rnd_ge_one) simp
  moreover have "0 \<le> round64 (float64_of_int (d mod second) / 10 ^ 9)"
    using pos(3) by (intro f64.rnd_nonneg) (simp add: float64_of_int_nonneg)
  ultimately show ?thesis
    unfolding Seconds_def using pos(1)
    by (intro f64.rnd_ge_one) (simp add: go_div_nonneg go_mod_nonneg second_def)
qed

lemma Allow_after_second:
  assumes "tb_invar b" and "tb_lastRefill b + second \<le> now" and "in_int64 (now - tb_lastRefill b)"
  shows "fst (snd (Allow b now))"
proof -
  define d where "d = now - tb_lastRefill b"
  have d: "second \<le> d" "time_Sub now (tb_lastRefill b) = d" "0 < d"
    using assms(2,3) by (auto simp: d_def time_Sub_def in_int64_def min_int64_def second_def)
  have inv: "1 \<le> tb_refillRate b" "1 \<le> tb_capacity b" "0 \<le> tb_tokens b"
    using assms(1) by (auto simp: tb_invar_def)
  have "1 * 1 \<le> Seconds d * tb_refillRate b"
    using Seconds_ge_one[OF d(1)] inv(1) by (intro mult_mono) simp_all
  then have f: "1 \<le> round64 (Seconds d * tb_refillRate b)" by (intro f64.rnd_ge_one) simp
  then have "1 \<le> round64 (tb_tokens b + round64 (Seconds d * tb_refillRate b))"
    using inv(3) by (intro f64.rnd_ge_one) simp
  then have "1 \<le> tb_tokens (tb_refill b now)"
    using f inv(2) d by (simp add: tb_refill_def Let_def)
  then show ?thesis by (simp add: Allow_def Let_def)
qed

text \<open>At one instant a full bucket admits exactly its capacity.\<close>

lemma tb_refill_same [simp]: "tb_refill b (tb_lastRefill b) = b"
  by (simp add: tb_refill_def Let_def time_Sub_def max_int64_def min_int64_def)

lemma burst_exact:
  assumes "tb_tokens b = of_nat k" and "k \<le> 2 ^ 53"
  shows "snd (tb_run b (replicate n (tb_lastRefill b))) = min n k"
  using assms
proof (induction n arbitrary: b k)
  case (Suc n)
  show ?case
  proof (cases k)
    case 0
    obtain w where "Allow b (tb_lastRefill b) = (b, False, w)"
      using Suc.prems 0 by (simp add: Allow_def Let_def)
    then show ?thesis
      using Suc.IH[OF Suc.prems] 0 by (simp add: case_prod_beta)
  next
    case (Suc j)
    let ?b1 = "b\<lparr>tb_tokens := of_nat j\<rparr>"
    have "round64 (of_nat j) = of_nat j" using Suc Suc.prems(2) by (intro f64.rnd_nat) simp
    then have A: "Allow b (tb_lastRefill b) = (?b1, True, 0)"
      using Suc Suc.prems by (simp add: Allow_def Let_def)
    have "snd (tb_run ?b1 (replicate n (tb_lastRefill ?b1))) = min n j"
      using Suc.IH[of ?b1 j] Suc Suc.prems(2) by simp
    with A Suc show ?thesis by (simp add: case_prod_beta)
  qed
qed simp

subsection \<open>Properties\<close>

text \<open>C12: The limiter keeps its promise in binary64 arithmetic: over any clock readings, running
  backwards included, the requests admitted plus the tokens left are at most the tokens at the
  start plus the elapsed time times the rate, up to a relative error of \<open>2 ^ -50\<close> in the rate
  and of \<open>2 ^ -52\<close> of the capacity for each request.\<close>

theorem limiter_bounds_admissions:
  assumes "tb_invar b" and "\<forall>t \<in> insert (tb_lastRefill b) (set nows). 0 \<le> t \<and> t \<le> max_int64"
  shows "tb_tokens (fst (tb_run b nows)) + of_nat (snd (tb_run b nows)) \<le>
      tb_tokens b + of_nat (length nows) * tb_capacity b / 2 ^ 52 +
      of_int (Max (insert (tb_lastRefill b) (set nows)) - tb_lastRefill b) / 10 ^ 9 *
        tb_refillRate b * (1 + 1 / 2 ^ 50)"
  using tb_run_bound[OF assms] unfolding ulp_sum_def .

theorem limiter_bounds_admissions_witness:
  "tb_tokens (fst (tb_run (newTokenBucket (float64_of_int 25) (float64_of_int 25) 0) [0, 500000000])) +
     of_nat (snd (tb_run (newTokenBucket (float64_of_int 25) (float64_of_int 25) 0) [0, 500000000])) \<le>
   tb_tokens (newTokenBucket (float64_of_int 25) (float64_of_int 25) 0) +
     of_nat (length [0, 500000000 :: int]) *
       tb_capacity (newTokenBucket (float64_of_int 25) (float64_of_int 25) 0) / 2 ^ 52 +
     of_int (Max (insert (tb_lastRefill (newTokenBucket (float64_of_int 25) (float64_of_int 25) 0))
       (set [0, 500000000])) - tb_lastRefill (newTokenBucket (float64_of_int 25) (float64_of_int 25) 0)) / 10 ^ 9 *
       tb_refillRate (newTokenBucket (float64_of_int 25) (float64_of_int 25) 0) * (1 + 1 / 2 ^ 50)"
proof (rule limiter_bounds_admissions)
  show "tb_invar (newTokenBucket (float64_of_int 25) (float64_of_int 25) 0)"
    by (rule newTokenBucket_invar) simp_all
  show "\<forall>t \<in> insert (tb_lastRefill (newTokenBucket (float64_of_int 25) (float64_of_int 25) 0))
      (set [0, 500000000]). 0 \<le> t \<and> t \<le> max_int64"
    by (simp add: newTokenBucket_def Let_def max_int64_def)
qed

text \<open>A refused client is told the truth: the wait is exactly one second, and whoever asks again a
  second or more after the refused request, with no request in between, is admitted.\<close>

theorem honoured_wait_is_admitted:
  assumes "tb_invar b" and "\<not> fst (snd (Allow b now))" and "in_int64 (now - tb_lastRefill b)"
    and "max (tb_lastRefill b) now + snd (snd (Allow b now)) \<le> later"
    and "in_int64 (later - max (tb_lastRefill b) now)"
  shows "snd (snd (Allow b now)) = 1000000000 \<and> fst (snd (Allow (fst (Allow b now)) later))"
proof
  have w: "snd (snd (Allow b now)) = second" using assms(1,2) by (rule Allow_wait)
  then show "snd (snd (Allow b now)) = 1000000000" by (simp add: second_def)
  show "fst (snd (Allow (fst (Allow b now)) later))"
    using Allow_after_second[OF Allow_invar[OF assms(1)], of now later] assms(3-5) w
      tb_lastRefill_Allow[OF assms(3)] by simp
qed

definition drained_bucket :: tokenBucket where
  "drained_bucket = fst (tb_run (newTokenBucket 1 1 0) [0])"

lemma drained_bucket_eq:
  "drained_bucket = \<lparr>tb_capacity = 1, tb_tokens = 0, tb_refillRate = 1, tb_lastRefill = 0\<rparr>"
  by code_simp

theorem honoured_wait_is_admitted_witness:
  "\<not> fst (snd (Allow drained_bucket 0)) \<and> snd (snd (Allow drained_bucket 0)) = 1000000000 \<and>
   fst (snd (Allow (fst (Allow drained_bucket 0)) 1000000000))"
proof -
  have i: "tb_invar drained_bucket" and l: "tb_lastRefill drained_bucket = 0"
    unfolding drained_bucket_eq by (simp_all add: tb_invar_def f64.rnd_int[of 1, simplified])
  have r: "\<not> fst (snd (Allow drained_bucket 0))" and w: "snd (snd (Allow drained_bucket 0)) = 1000000000"
    by code_simp+
  with honoured_wait_is_admitted[OF i r] show ?thesis
    unfolding l by (simp add: in_int64_def min_int64_def max_int64_def)
qed

text \<open>At one instant a fresh limiter made from a whole number of tokens admits exactly that many
  of any number of requests.\<close>

theorem burst_is_exact:
  assumes "1 \<le> burst" and "burst \<le> 2 ^ 53"
  shows "int (snd (tb_run (newTokenBucket (float64_of_int rps) (float64_of_int burst) now) (replicate n now))) =
    min (int n) burst"
proof -
  let ?b = "newTokenBucket (float64_of_int rps) (float64_of_int burst) now"
  have "float64_of_int burst = of_int burst" using assms by (intro float64_of_int_exact) simp
  then have "tb_tokens ?b = of_nat (nat burst)" using assms by (simp add: newTokenBucket_def Let_def)
  moreover have "tb_lastRefill ?b = now" by (simp add: newTokenBucket_def Let_def)
  moreover have "nat burst \<le> 2 ^ 53" using assms(2) by (simp add: nat_le_iff)
  ultimately show ?thesis using burst_exact[of ?b "nat burst" n] assms(1) by simp
qed

theorem burst_is_exact_witness:
  "int (snd (tb_run (newTokenBucket (float64_of_int 25) (float64_of_int 25) 7) (replicate 30 7))) = 25"
  by (subst burst_is_exact) simp_all

end
