(* ===== verification/Go_Net.thy ===== *)
theory Go_Net
  imports Go_Strings
begin

text \<open>
  The parts of Go's \<^verbatim>\<open>net\<close> package behind the loopback checks: \<open>SplitHostPort\<close>, \<open>JoinHostPort\<close>,
  \<open>ParseIP\<close> and the methods \<open>IsLoopback\<close> and \<open>String\<close> of an address. An address is its sixteen
  bytes, with an IPv4 address in the mapped form \<^verbatim>\<open>::ffff:a.b.c.d\<close>, as in Go.
\<close>

subsection \<open>Host and port\<close>

datatype addr_error = MissingPort | TooManyColons | MissingBracket | UnexpectedBracket

definition IndexByte :: "char \<Rightarrow> string \<Rightarrow> nat option" where
  "IndexByte c s = (let i = length (takeWhile (\<lambda>x. x \<noteq> c) s) in if i < length s then Some i else None)"

definition LastIndexByte :: "char \<Rightarrow> string \<Rightarrow> nat option" where
  "LastIndexByte c s = map_option (\<lambda>i. length s - 1 - i) (IndexByte c (rev s))"

definition finish_split :: "string \<Rightarrow> nat \<Rightarrow> nat \<Rightarrow> string \<Rightarrow> nat \<Rightarrow> addr_error + string \<times> string" where
  "finish_split hostport j k host i =
     (if CHR ''['' \<in> set (drop j hostport) then Inl UnexpectedBracket
      else if CHR '']'' \<in> set (drop k hostport) then Inl UnexpectedBracket
      else Inr (host, drop (i + 1) hostport))"

definition SplitHostPort :: "string \<Rightarrow> addr_error + string \<times> string" where
  "SplitHostPort hostport =
     (case LastIndexByte CHR '':'' hostport of
        None \<Rightarrow> Inl MissingPort
      | Some i \<Rightarrow>
          if hd hostport = CHR ''['' then
            (case IndexByte CHR '']'' hostport of
               None \<Rightarrow> Inl MissingBracket
             | Some end' \<Rightarrow>
                 if end' + 1 = length hostport then Inl MissingPort
                 else if end' + 1 = i then
                   finish_split hostport 1 (end' + 1) (drop 1 (take end' hostport)) i
                 else if hostport ! (end' + 1) = CHR '':'' then Inl TooManyColons
                 else Inl MissingPort)
          else
            let host = take i hostport
            in if CHR '':'' \<in> set host then Inl TooManyColons
               else finish_split hostport 0 0 host i)"

definition JoinHostPort :: "string \<Rightarrow> string \<Rightarrow> string" where
  "JoinHostPort host port =
     (if CHR '':'' \<in> set host then ''['' @ host @ '']:'' @ port else host @ '':'' @ port)"

subsection \<open>Addresses\<close>

definition parse_octet :: "string \<Rightarrow> byte option" where
  "parse_octet s =
     (if s = [] \<or> \<not> list_all is_digit s then None
      else if 1 < length s \<and> hd s = CHR ''0'' then None
      else if decimal s > 255 then None else Some (word_of_nat (decimal s)))"

definition parseIPv4Fields :: "string \<Rightarrow> byte list option" where
  "parseIPv4Fields s =
     (case map parse_octet (Split CHR ''.'' s) of
        [Some a, Some b, Some c, Some d] \<Rightarrow> Some [a, b, c, d] | _ \<Rightarrow> None)"

definition hex_value :: "char \<Rightarrow> nat option" where
  "hex_value c =
     (let n = of_char c :: nat
      in if 48 \<le> n \<and> n \<le> 57 then Some (n - 48)
         else if 97 \<le> n \<and> n \<le> 102 then Some (n - 97 + 10)
         else if 65 \<le> n \<and> n \<le> 70 then Some (n - 65 + 10) else None)"

definition hex_acc :: "string \<Rightarrow> nat" where
  "hex_acc s = foldl (\<lambda>acc c. acc * 16 + the (hex_value c)) 0 s"

text \<open>
  The loop over the groups: the number of groups that still fit, the rest of the string, the
  bytes so far and the position of the ellipsis.
\<close>

fun v6_loop :: "nat \<Rightarrow> string \<Rightarrow> byte list \<Rightarrow> nat option \<Rightarrow> (string \<times> byte list \<times> nat option) option" where
  "v6_loop 0 s ip ell = Some (s, ip, ell)"
| "v6_loop (Suc n) s ip ell =
     (let ds = takeWhile (\<lambda>c. hex_value c \<noteq> None) s;
          rest = drop (length ds) s
      in if 4 < length ds \<or> ds = [] then None
         else if rest \<noteq> [] \<and> hd rest = CHR ''.'' then
           (if ell = None \<and> length ip \<noteq> 12 then None
            else if length ip + 4 > 16 then None
            else (case parseIPv4Fields s of
                    None \<Rightarrow> None | Some fields \<Rightarrow> Some ([], ip @ fields, ell)))
         else
           let acc = hex_acc ds;
               ip' = ip @ [word_of_nat (acc div 256), word_of_nat acc]
           in case rest of
                [] \<Rightarrow> Some ([], ip', ell)
              | c # s1 \<Rightarrow>
                  if c \<noteq> CHR '':'' then None
                  else (case s1 of
                          [] \<Rightarrow> None
                        | c1 # s2 \<Rightarrow>
                            if c1 = CHR '':'' then
                              (if ell \<noteq> None then None
                               else if s2 = [] then Some ([], ip', Some (length ip'))
                               else v6_loop n s2 ip' (Some (length ip')))
                            else v6_loop n s1 ip' ell))"

definition expand_ellipsis :: "byte list \<Rightarrow> nat option \<Rightarrow> byte list option" where
  "expand_ellipsis ip ell =
     (if length ip < 16 then
        (case ell of None \<Rightarrow> None
         | Some e \<Rightarrow> Some (take e ip @ replicate (16 - length ip) 0 @ drop e ip))
      else if ell \<noteq> None then None else Some ip)"

definition parseIPv6 :: "string \<Rightarrow> byte list option" where
  "parseIPv6 s =
     (let leading = prefix ''::'' s; s' = (if leading then drop 2 s else s)
      in if leading \<and> s' = [] then Some (replicate 16 0)
         else (case v6_loop 8 s' [] (if leading then Some 0 else None) of
                 None \<Rightarrow> None
               | Some (rest, ip, ell) \<Rightarrow> if rest \<noteq> [] then None else expand_ellipsis ip ell))"

definition v4_prefix :: "byte list" where
  "v4_prefix = replicate 10 0 @ [0xFF, 0xFF]"

text \<open>
  \<open>ParseIP\<close> decides by the first of the characters \<^verbatim>\<open>.\<close>, \<^verbatim>\<open>:\<close> and \<^verbatim>\<open>%\<close>; an address with a zone is
  refused by it, so a \<^verbatim>\<open>%\<close> anywhere in an IPv6 address is a refusal.
\<close>

definition ParseIP :: "string \<Rightarrow> byte list option" where
  "ParseIP s =
     (case find (\<lambda>c. c \<in> {CHR ''.'', CHR '':'', CHR 0x25}) s of
        None \<Rightarrow> None
      | Some c \<Rightarrow>
          if c = CHR ''.'' then map_option ((@) v4_prefix) (parseIPv4Fields s)
          else if c = CHR '':'' then (if CHR 0x25 \<in> set s then None else parseIPv6 s)
          else None)"

definition To4 :: "byte list \<Rightarrow> byte list option" where
  "To4 ip =
     (if length ip = 16 \<and> take 12 ip = v4_prefix then Some (drop 12 ip) else None)"

definition IsLoopback :: "byte list \<Rightarrow> bool" where
  "IsLoopback ip =
     (case To4 ip of Some ip4 \<Rightarrow> hd ip4 = 127 | None \<Rightarrow> ip = replicate 15 0 @ [1])"

definition dotted :: "byte list \<Rightarrow> string" where
  "dotted ip4 = Join CHR ''.'' (map (\<lambda>b. utoa (unat b)) ip4)"

definition hex_digit :: "nat \<Rightarrow> char" where
  "hex_digit n = (if n < 10 then char_of (48 + n) else char_of (87 + n))"

fun appendHex :: "nat \<Rightarrow> string" where
  "appendHex n = (if n < 16 then [hex_digit n] else appendHex (n div 16) @ [hex_digit (n mod 16)])"

declare appendHex.simps [simp del]

fun groups :: "byte list \<Rightarrow> nat list" where
  "groups (a # b # bs) = (unat a * 256 + unat b) # groups bs"
| "groups _ = []"

definition zero_run :: "nat list \<Rightarrow> nat \<Rightarrow> nat" where
  "zero_run gs i = length (takeWhile (\<lambda>g. g = 0) (drop i gs))"

text \<open>The first of the longest runs of at least two zero groups, as start and end.\<close>

definition longest_zeros :: "nat list \<Rightarrow> (nat \<times> nat) option" where
  "longest_zeros gs =
     fold (\<lambda>i best. let l = zero_run gs i
                    in if 2 \<le> l \<and> l > (case best of None \<Rightarrow> 0 | Some (a, b) \<Rightarrow> b - a)
                       then Some (i, i + l) else best)
       [0..<length gs] None"

definition string6 :: "nat list \<Rightarrow> string" where
  "string6 gs =
     (case longest_zeros gs of
        None \<Rightarrow> Join CHR '':'' (map appendHex gs)
      | Some (a, b) \<Rightarrow> Join CHR '':'' (map appendHex (take a gs)) @ ''::'' @
                        Join CHR '':'' (map appendHex (drop b gs)))"

definition IP_String :: "byte list \<Rightarrow> string" where
  "IP_String ip = (case To4 ip of Some ip4 \<Rightarrow> dotted ip4 | None \<Rightarrow> string6 (groups ip))"

subsection \<open>Splitting what was joined\<close>

lemma takeWhile_absent: "c \<notin> set p \<Longrightarrow> takeWhile (\<lambda>x. x \<noteq> c) p = p"
  by (auto simp: takeWhile_eq_all_conv)

lemma IndexByte_append: "c \<notin> set p \<Longrightarrow> IndexByte c (p @ c # q) = Some (length p)"
  by (simp add: IndexByte_def Let_def takeWhile_tail takeWhile_absent)

lemma IndexByte_Some:
  assumes "IndexByte c s = Some i"
  shows "\<exists>p q. s = p @ c # q \<and> length p = i \<and> c \<notin> set p"
proof -
  let ?p = "takeWhile (\<lambda>x. x \<noteq> c) s"
  have i: "length ?p = i" "i < length s" using assms by (auto simp: IndexByte_def Let_def split: if_splits)
  have s: "s = ?p @ dropWhile (\<lambda>x. x \<noteq> c) s" by simp
  then have "dropWhile (\<lambda>x. x \<noteq> c) s \<noteq> []" using i by (metis append_Nil2 less_irrefl)
  then obtain d q where dq: "dropWhile (\<lambda>x. x \<noteq> c) s = d # q" by (cases "dropWhile (\<lambda>x. x \<noteq> c) s") auto
  then have "d = c" using hd_dropWhile[of "\<lambda>x. x \<noteq> c" s] by simp
  moreover have "c \<notin> set ?p" by (auto dest: set_takeWhileD)
  ultimately show ?thesis using s i dq by (intro exI[of _ ?p] exI[of _ q]) simp
qed

lemma LastIndexByte_append: "c \<notin> set q \<Longrightarrow> LastIndexByte c (p @ c # q) = Some (length p)"
  using IndexByte_append[of c "rev q" "rev p"] by (simp add: LastIndexByte_def)

lemma LastIndexByte_Some:
  assumes "LastIndexByte c s = Some i"
  shows "\<exists>p q. s = p @ c # q \<and> length p = i \<and> c \<notin> set q"
proof -
  from assms obtain k where k: "IndexByte c (rev s) = Some k" "i = length s - 1 - k"
    by (auto simp: LastIndexByte_def)
  from IndexByte_Some[OF k(1)] obtain p q where pq: "rev s = p @ c # q" "length p = k" "c \<notin> set p"
    by blast
  then have "s = rev q @ c # rev p" by (metis append.assoc append_Cons append_Nil rev.simps(2) rev_append rev_rev_ident)
  with pq k(2) show ?thesis by (intro exI[of _ "rev q"] exI[of _ "rev p"]) simp
qed

definition port_chars :: "string \<Rightarrow> bool" where
  "port_chars p \<longleftrightarrow> CHR '':'' \<notin> set p \<and> CHR ''['' \<notin> set p \<and> CHR '']'' \<notin> set p"

lemma finish_split_Inr:
  "finish_split hp j k h i = Inr (host, port) \<longleftrightarrow>
     CHR ''['' \<notin> set (drop j hp) \<and> CHR '']'' \<notin> set (drop k hp) \<and> host = h \<and> port = drop (i + 1) hp"
  by (auto simp: finish_split_def)

lemma SplitHostPort_port:
  assumes "SplitHostPort hp = Inr (host, port)"
  shows "port_chars port"
proof -
  from assms obtain i where "LastIndexByte CHR '':'' hp = Some i"
    by (auto simp: SplitHostPort_def split: option.splits)
  from LastIndexByte_Some[OF this] obtain p q where
    pq: "hp = p @ CHR '':'' # q" "length p = i" "CHR '':'' \<notin> set q" by blast
  with assms \<open>LastIndexByte CHR '':'' hp = Some i\<close> show ?thesis
    by (auto simp: SplitHostPort_def Let_def finish_split_Inr port_chars_def
        split: option.splits if_splits)
qed

lemma SplitHostPort_JoinHostPort:
  assumes "port_chars port" and "CHR ''['' \<notin> set host" and "CHR '']'' \<notin> set host"
  shows "SplitHostPort (JoinHostPort host port) = Inr (host, port)"
proof (cases "CHR '':'' \<in> set host")
  case True
  let ?hp = "(CHR ''['' # host @ [CHR '']'']) @ CHR '':'' # port"
  have hp: "JoinHostPort host port = ?hp" using True by (simp add: JoinHostPort_def)
  have "LastIndexByte CHR '':'' ?hp = Some (length host + 2)"
    using LastIndexByte_append[of "CHR '':''" port "CHR ''['' # host @ [CHR '']'']"] assms(1)
    by (simp add: port_chars_def)
  moreover have "IndexByte CHR '']'' ?hp = Some (length host + 1)"
    using IndexByte_append[of "CHR '']''" "CHR ''['' # host" "CHR '':'' # port"] assms(3) by simp
  ultimately show ?thesis
    using assms unfolding hp by (simp add: SplitHostPort_def finish_split_def port_chars_def)
next
  case False
  have hp: "JoinHostPort host port = host @ CHR '':'' # port"
    using False by (simp add: JoinHostPort_def)
  have "hd (host @ CHR '':'' # port) \<noteq> CHR ''[''" using assms(2) by (cases host) auto
  then show ?thesis
    using assms False LastIndexByte_append[of "CHR '':''" port host]
    unfolding hp by (simp add: SplitHostPort_def finish_split_def port_chars_def Let_def)
qed

subsection \<open>Loopback addresses\<close>

text \<open>A loopback address prints as \<^verbatim>\<open>::1\<close> or as a dotted quad that starts with 127.\<close>

definition loopback_host :: "string \<Rightarrow> bool" where
  "loopback_host h \<longleftrightarrow> h = ''localhost'' \<or> h = ''::1'' \<or>
     (\<exists>b c d :: byte. h = dotted [127, b, c, d])"

lemma v6_loopback_String: "IP_String (replicate 15 0 @ [1]) = ''::1''"
  by code_simp

lemma length_16_drop: "length (ip :: byte list) = 16 \<Longrightarrow> \<exists>a b c d. drop 12 ip = [a, b, c, d]"
  by (rule exI[of _ "ip ! 12"], rule exI[of _ "ip ! 13"], rule exI[of _ "ip ! 14"],
      rule exI[of _ "ip ! 15"], rule nth_equalityI) (auto simp: less_Suc_eq numeral_eq_Suc)

lemma loopback_String: "IsLoopback ip \<Longrightarrow> loopback_host (IP_String ip)"
proof (cases "To4 ip")
  case None
  assume "IsLoopback ip"
  with None have "ip = replicate 15 0 @ [1]" by (simp add: IsLoopback_def)
  then show ?thesis by (simp only: v6_loopback_String loopback_host_def) simp
next
  case (Some ip4)
  assume "IsLoopback ip"
  with Some have "hd ip4 = 127" by (simp add: IsLoopback_def)
  moreover obtain a b c d where "ip4 = [a, b, c, d]"
    using Some length_16_drop[of ip] by (auto simp: To4_def split: if_splits)
  ultimately show ?thesis using Some by (auto simp: IP_String_def loopback_host_def)
qed

lemma dotted_chars: "x \<in> set (dotted ip4) \<Longrightarrow> is_digit x \<or> x = CHR ''.''"
  unfolding dotted_def
proof (induction ip4 rule: induct_list012)
  case (2 b)
  then show ?case using utoa_digits by (auto simp: list_all_iff)
next
  case (3 b c bs)
  then show ?case using utoa_digits by (auto simp: list_all_iff)
qed simp

lemma loopback_host_chars: "loopback_host h \<Longrightarrow> CHR ''['' \<notin> set h \<and> CHR '']'' \<notin> set h"
  by (auto simp: loopback_host_def is_digit_def dest: dotted_chars)

end
