(* ===== verification/Go_Http.thy ===== *)
theory Go_Http
  imports Go_Net
begin

text \<open>
  What the two HTTP servers use of Go's \<^verbatim>\<open>net/http\<close>, \<^verbatim>\<open>context\<close> and \<^verbatim>\<open>crypto/tls\<close>: a response as the
  writer sees it, the routing of \<^verbatim>\<open>ServeMux\<close> with its cleaning of paths, listeners, the modes of TLS
  client authentication, and the graceful shutdown.
  Whether a socket can be bound, whether certificates load and how a shutdown ends are outcomes
  of the environment and arguments of the operations that ask for them.
\<close>

subsection \<open>Responses\<close>

datatype body = NoBody | Text string | Bytes "byte list"

record response =
  resp_header :: "string \<Rightarrow> string option"
  resp_status :: int
  resp_body :: body

definition new_response :: response where
  "new_response = \<lparr>resp_header = (\<lambda>_. None), resp_status = 200, resp_body = NoBody\<rparr>"

definition header_Set :: "string \<Rightarrow> string \<Rightarrow> response \<Rightarrow> response" where
  "header_Set key val r = r\<lparr>resp_header := (resp_header r)(key := Some val)\<rparr>"

definition line_feed :: string where
  "line_feed = [CHR 0x0A]"

definition http_Error :: "string \<Rightarrow> int \<Rightarrow> response \<Rightarrow> response" where
  "http_Error msg code r =
     (header_Set ''X-Content-Type-Options'' ''nosniff''
       (header_Set ''Content-Type'' ''text/plain; charset=utf-8''
         (r\<lparr>resp_header := (resp_header r)(''Content-Length'' := None)\<rparr>)))
     \<lparr>resp_status := code, resp_body := Text (msg @ line_feed)\<rparr>"

lemma response_simps [simp]:
  "resp_header (header_Set k v r) k' = (if k' = k then Some v else resp_header r k')"
  "resp_status (header_Set k v r) = resp_status r"
  "resp_body (header_Set k v r) = resp_body r"
  "resp_status (http_Error msg code r) = code"
  "resp_body (http_Error msg code r) = Text (msg @ line_feed)"
  "resp_header (http_Error msg code r) k =
     (if k = ''X-Content-Type-Options'' then Some ''nosniff''
      else if k = ''Content-Type'' then Some ''text/plain; charset=utf-8''
      else if k = ''Content-Length'' then None else resp_header r k)"
  "resp_status new_response = 200"
  by (simp_all add: header_Set_def http_Error_def new_response_def)

definition status_NotFound :: "response \<Rightarrow> response" where
  "status_NotFound r = http_Error ''404 page not found'' 404 r"

definition status_Moved :: "response \<Rightarrow> response" where
  "status_Moved r = r\<lparr>resp_status := 301\<rparr>"

subsection \<open>Routing\<close>

text \<open>
  \<open>cleanPath\<close> of the library: a leading slash, no empty segment and no dot segments, and a trailing
  slash kept.
\<close>

fun clean_segments :: "string list \<Rightarrow> string list \<Rightarrow> string list" where
  "clean_segments done [] = rev done"
| "clean_segments done (seg # segs) =
     (if seg = [] \<or> seg = ''.'' then clean_segments done segs
      else if seg = ''..'' then clean_segments (tl done) segs
      else clean_segments (seg # done) segs)"

definition cleanPath :: "string \<Rightarrow> string" where
  "cleanPath path =
     (if path = [] then ''/''
      else
        let segs = clean_segments [] (Split CHR ''/'' path);
            np = CHR ''/'' # Join CHR ''/'' segs
        in if last path = CHR ''/'' \<and> np \<noteq> ''/'' then np @ ''/'' else np)"

text \<open>
  A multiplexer of exact patterns, as registered by \<^verbatim>\<open>HandleFunc\<close>: pattern and handler. A path that is
  not clean is redirected to the clean one, whatever is registered; of that response, which is
  the library's, only the status is kept (\<open>status_Moved\<close>).
\<close>

type_synonym 'h mux = "(string \<times> 'h) list"

datatype 'h route = RouteMoved string | RouteFound 'h | RouteMissing

definition mux_route :: "'h mux \<Rightarrow> string \<Rightarrow> 'h route" where
  "mux_route mux path =
     (let clean = cleanPath path
      in if clean \<noteq> path then RouteMoved clean
         else case map_of mux path of None \<Rightarrow> RouteMissing | Some h \<Rightarrow> RouteFound h)"

subsection \<open>Listeners\<close>

datatype client_auth_type = NoClientCert | RequestClientCert | RequireAndVerifyClientCert

record tls_config =
  tls_CertFile :: string
  tls_KeyFile :: string
  tls_CAFile :: string
  tls_ClientAuth :: client_auth_type

text \<open>A bound socket with the TLS configuration it is served with, if any.\<close>

record listener =
  lst_addr :: string
  lst_tls :: "tls_config option"

subsection \<open>Graceful shutdown\<close>

datatype go_context = NilContext | Background | WithTimeout int

datatype shutdown_error = ErrServerClosed | ContextDeadlineExceeded | ShutdownFailed

end
