(* ===== verification/Http_Server.thy ===== *)
theory Http_Server
  imports Pool Token_Bucket Go_Http
begin

text \<open>
  The entropy HTTP server of \<^verbatim>\<open>internal/entropy/http_entropy_server.go\<close>: construction with its
  defaults and the loopback check, the routes and the four handlers, starting with and without
  TLS, and the shutdown. A handler maps the server's state and
  the request to the new state, the response and the metric calls. The request's part that is
  read is the value of the query parameter \<^verbatim>\<open>bytes\<close>; clock readings are arguments.

  A handler calls the pool twice (\<open>AvailableEntropy\<close>, then \<open>ExtractEntropy\<close>) and other goroutines
  may use the pool in between: the argument \<open>meanwhile\<close> is what they do to it.
\<close>

subsection \<open>Headers\<close>

definition setNoStoreHeaders :: "response \<Rightarrow> response" where
  "setNoStoreHeaders r =
     header_Set ''Pragma'' ''no-cache'' (header_Set ''Cache-Control'' ''no-store'' r)"

lemma no_store_simps [simp]:
  "resp_header (setNoStoreHeaders r) ''Cache-Control'' = Some ''no-store''"
  "resp_status (setNoStoreHeaders r) = resp_status r"
  by (simp_all add: setNoStoreHeaders_def)

subsection \<open>The server\<close>

definition defaultHTTPAddress :: string where
  "defaultHTTPAddress = ''127.0.0.1:9797''"

definition defaultRequestBytes :: int where "defaultRequestBytes = 32"
definition minRequestBytes :: int where "minRequestBytes = 1"
definition maxRequestBytes :: int where "maxRequestBytes = 4096"
definition defaultRateLimitRPS :: int where "defaultRateLimitRPS = 25"
definition defaultRateLimitBurst :: int where "defaultRateLimitBurst = 25"
definition defaultRetryAfterSeconds :: int where "defaultRetryAfterSeconds = 1"
definition defaultShutdownTimeout :: int where "defaultShutdownTimeout = 5 * second"
definition baseUrlV1 :: string where "baseUrlV1 = ''/api/v1''"

record HTTPServer =
  srv_pool :: "WhitenedPool option"
  srv_addr :: string
  srv_shutdownTimeout :: int
  srv_readyThreshold :: int
  srv_rateLimiter :: "tokenBucket option"
  srv_retryAfterSeconds :: int

datatype server_error = InvalidAddress addr_error | HostMissing | HostNotLoopback string | HostMustBeLoopback string

definition enforceLoopbackAddr :: "string \<Rightarrow> bool \<Rightarrow> server_error + string" where
  "enforceLoopbackAddr addr allowPublic =
     (let addr1 = TrimSpace addr;
          addr2 = (if addr1 = [] then defaultHTTPAddress else addr1)
      in case SplitHostPort addr2 of
           Inl err \<Rightarrow> Inl (InvalidAddress err)
         | Inr (host, port) \<Rightarrow>
             if host = [] then Inl HostMissing
             else if ToLower host = ''localhost'' then Inr (JoinHostPort ''localhost'' port)
             else case ParseIP host of
                    None \<Rightarrow> if allowPublic then Inr addr2 else Inl (HostNotLoopback host)
                  | Some ip \<Rightarrow>
                      if \<not> IsLoopback ip then
                        (if allowPublic then Inr (JoinHostPort (IP_String ip) port)
                         else Inl (HostMustBeLoopback host))
                      else Inr (JoinHostPort (IP_String ip) port))"

definition NewHTTPServer ::
    "string \<Rightarrow> WhitenedPool option \<Rightarrow> int \<Rightarrow> bool \<Rightarrow> int \<Rightarrow> int \<Rightarrow> int \<Rightarrow> int \<Rightarrow> server_error + HTTPServer" where
  "NewHTTPServer addr pool readyThreshold allowPublic retryAfterSeconds rateLimitRPS rateLimitBurst now =
     (let addr1 = (if addr = [] then defaultHTTPAddress else addr);
          readyThreshold1 = (if readyThreshold < 0 then 0 else readyThreshold);
          retryAfterSeconds1 =
            (if retryAfterSeconds \<le> 0 then defaultRetryAfterSeconds else retryAfterSeconds);
          rateLimitRPS1 = (if rateLimitRPS \<le> 0 then defaultRateLimitRPS else rateLimitRPS);
          rateLimitBurst1 = (if rateLimitBurst \<le> 0 then defaultRateLimitBurst else rateLimitBurst)
      in case enforceLoopbackAddr addr1 allowPublic of
           Inl err \<Rightarrow> Inl err
         | Inr canonicalAddr \<Rightarrow>
             Inr \<lparr>srv_pool = pool, srv_addr = canonicalAddr,
                  srv_shutdownTimeout = defaultShutdownTimeout, srv_readyThreshold = readyThreshold1,
                  srv_rateLimiter = Some (newTokenBucket (float64_of_int rateLimitRPS1)
                    (float64_of_int rateLimitBurst1) now),
                  srv_retryAfterSeconds = retryAfterSeconds1\<rparr>)"

definition setRetryAfter :: "HTTPServer \<Rightarrow> int \<Rightarrow> response \<Rightarrow> response" where
  "setRetryAfter s wait r =
     (let seconds = srv_retryAfterSeconds s;
          seconds1 = (if wait > 0 then
                        let calc = \<lceil>Seconds wait\<rceil> in if calc > seconds then calc else seconds
                      else seconds);
          seconds2 = (if seconds1 < 1 then defaultRetryAfterSeconds else seconds1)
      in header_Set ''Retry-After'' (Itoa seconds2) r)"

text \<open>The metric calls of the deferred function of \<open>handleEntropy\<close>.\<close>

definition entropy_metrics :: "int \<Rightarrow> bool \<Rightarrow> int \<Rightarrow> metric_log" where
  "entropy_metrics status rateLimited duration =
     RecordEntropyHTTPRequest status duration @
     (if status = 503 then
        RecordEntropyHTTP503 @ (if rateLimited then RecordEntropyHTTPRateLimited else [])
      else [])"

text \<open>The number of bytes a request asks for: \<open>None\<close> when the parameter is no number.\<close>

definition requested_bytes :: "string \<Rightarrow> int option" where
  "requested_bytes param =
     (if param = [] then Some defaultRequestBytes
      else case Atoi param of Inl _ \<Rightarrow> None | Inr parsed \<Rightarrow> Some parsed)"

definition handleEntropy ::
    "HTTPServer \<Rightarrow> (WhitenedPool \<Rightarrow> WhitenedPool) \<Rightarrow> int \<Rightarrow> int \<Rightarrow> string \<Rightarrow>
     HTTPServer \<times> response \<times> metric_log" where
  "handleEntropy s meanwhile now duration param =
     (case requested_bytes param of
        None \<Rightarrow>
          (s, http_Error ''invalid bytes parameter'' 400
                (header_Set ''Cache-Control'' ''no-store'' new_response),
           entropy_metrics 400 False duration)
      | Some requestBytes \<Rightarrow>
          if requestBytes < minRequestBytes \<or> requestBytes > maxRequestBytes then
            (s, http_Error (''bytes must be between '' @ Itoa minRequestBytes @ '' and '' @
                            Itoa maxRequestBytes) 400
                  (header_Set ''Cache-Control'' ''no-store'' new_response),
             entropy_metrics 400 False duration)
          else
            let (s1, allowed, wait) =
                  (case srv_rateLimiter s of
                     None \<Rightarrow> (s, True, 0)
                   | Some b \<Rightarrow> (case Allow b now of
                                  (b', ok, w) \<Rightarrow> (s\<lparr>srv_rateLimiter := Some b'\<rparr>, ok, w)))
            in if \<not> allowed then
                 (s1, http_Error ''rate limit exceeded'' 503
                        (setRetryAfter s1 wait (setNoStoreHeaders new_response)),
                  entropy_metrics 503 True duration)
               else
                 let available = (case srv_pool s1 of None \<Rightarrow> 0 | Some p \<Rightarrow> AvailableEntropy p);
                     r1 = header_Set ''X-Entropy-Request'' (Itoa requestBytes)
                            (header_Set ''X-Entropy-Available'' (Itoa available)
                              (header_Set ''Content-Type'' ''application/octet-stream''
                                (setNoStoreHeaders new_response)))
                 in case srv_pool s1 of
                      None \<Rightarrow>
                        (s1, http_Error ''entropy pool unavailable'' 503 (setRetryAfter s1 0 r1),
                         entropy_metrics 503 False duration)
                    | Some p \<Rightarrow>
                        (case ExtractEntropy (meanwhile p) requestBytes of
                           (p', None, ms) \<Rightarrow>
                             (s1\<lparr>srv_pool := Some p'\<rparr>,
                              http_Error (''insufficient entropy: requested '' @ Itoa requestBytes @
                                          '', available '' @ Itoa available) 503
                                (setRetryAfter s1 0 r1),
                              ms @ entropy_metrics 503 False duration)
                         | (p', Some bytes, ms) \<Rightarrow>
                             (s1\<lparr>srv_pool := Some p'\<rparr>, r1\<lparr>resp_body := Bytes bytes\<rparr>,
                              ms @ entropy_metrics 200 False duration)))"

definition handleHealth :: "HTTPServer \<Rightarrow> (WhitenedPool \<Rightarrow> WhitenedPool) \<Rightarrow> response" where
  "handleHealth s meanwhile =
     (let (rawEvs, white, available) =
            (case srv_pool s of
               None \<Rightarrow> (0, 0, 0)
             | Some p \<Rightarrow> (case PoolStatus p of (r, w) \<Rightarrow> (r, w, AvailableEntropy (meanwhile p))))
      in (header_Set ''Content-Type'' ''text/plain; charset=utf-8'' (setNoStoreHeaders new_response))
         \<lparr>resp_status := 200,
          resp_body := Text (''raw_events='' @ Itoa rawEvs @ line_feed @
                             ''whitened_bytes='' @ Itoa white @ line_feed @
                             ''available_bytes='' @ Itoa available @ line_feed)\<rparr>)"

definition handleReady :: "HTTPServer \<Rightarrow> response" where
  "handleReady s =
     (let available = (case srv_pool s of None \<Rightarrow> 0 | Some p \<Rightarrow> AvailableEntropy p);
          r = header_Set ''X-Ready-Threshold'' (Itoa (srv_readyThreshold s))
                (header_Set ''X-Entropy-Available'' (Itoa available)
                  (header_Set ''Content-Type'' ''text/plain; charset=utf-8''
                    (setNoStoreHeaders new_response)))
      in if available < srv_readyThreshold s
         then r\<lparr>resp_status := 503, resp_body := Text (''ready=false'' @ line_feed)\<rparr>
         else r\<lparr>resp_status := 200, resp_body := Text (''ready=true'' @ line_feed)\<rparr>)"

text \<open>The embedded specification file is an argument.\<close>

definition handleOpenAPI :: "byte list \<Rightarrow> response" where
  "handleOpenAPI spec =
     (header_Set ''Cache-Control'' ''public, max-age=3600''
       (header_Set ''Access-Control-Allow-Origin'' ''*''
         (header_Set ''Content-Type'' ''application/yaml'' new_response)))
     \<lparr>resp_status := 200, resp_body := Bytes spec\<rparr>"

subsection \<open>Starting, routing and stopping\<close>

datatype start_error = PoolIsNil | ConfigureTLSFailed | ListenFailed

text \<open>
  \<open>listen\<close> says whether the socket can be bound, \<open>configure\<close> whether the certificates of a TLS
  configuration load. Every constructed server has its \<^verbatim>\<open>http.Server\<close>; its address is \<open>srv_addr\<close>.
\<close>

definition http_Start :: "(string \<Rightarrow> bool) \<Rightarrow> HTTPServer \<Rightarrow> start_error + listener" where
  "http_Start listen s =
     (if srv_pool s = None then Inl PoolIsNil
      else if \<not> listen (srv_addr s) then Inl ListenFailed
      else Inr \<lparr>lst_addr = srv_addr s, lst_tls = None\<rparr>)"

definition http_StartTLS ::
    "(tls_config \<Rightarrow> bool) \<Rightarrow> (string \<Rightarrow> bool) \<Rightarrow> HTTPServer \<Rightarrow> string \<Rightarrow> string \<Rightarrow> string \<Rightarrow>
     client_auth_type \<Rightarrow> start_error + listener" where
  "http_StartTLS configure listen s certFile keyFile caFile clientAuth =
     (if srv_pool s = None then Inl PoolIsNil
      else
        let tlsConfig = \<lparr>tls_CertFile = certFile, tls_KeyFile = keyFile, tls_CAFile = caFile,
                         tls_ClientAuth = clientAuth\<rparr>
        in if \<not> configure tlsConfig then Inl ConfigureTLSFailed
           else if \<not> listen (srv_addr s) then Inl ListenFailed
           else Inr \<lparr>lst_addr = srv_addr s, lst_tls = Some tlsConfig\<rparr>)"

text \<open>\<open>closing\<close> is how the library's shutdown ends under a context.\<close>

definition http_Shutdown ::
    "(go_context \<Rightarrow> shutdown_error option) \<Rightarrow> HTTPServer \<Rightarrow> go_context \<Rightarrow> shutdown_error option" where
  "http_Shutdown closing s ctx =
     (let ctx1 = (if ctx = NilContext then WithTimeout (srv_shutdownTimeout s) else ctx)
      in case closing ctx1 of Some ErrServerClosed \<Rightarrow> None | err \<Rightarrow> err)"

datatype endpoint = EntropyBinary | Health | Ready | OpenAPI

definition http_routes :: "endpoint mux" where
  "http_routes =
     [(baseUrlV1 @ ''/entropy/binary'', EntropyBinary), (baseUrlV1 @ ''/health'', Health),
      (baseUrlV1 @ ''/ready'', Ready), (baseUrlV1 @ ''/openapi'', OpenAPI)]"

record http_request =
  rq_path :: string
  rq_bytes :: string     \<comment> \<open>the value of the query parameter \<^verbatim>\<open>bytes\<close>\<close>
  rq_now :: int
  rq_duration :: int

definition http_serve ::
    "byte list \<Rightarrow> HTTPServer \<Rightarrow> (WhitenedPool \<Rightarrow> WhitenedPool) \<Rightarrow> http_request \<Rightarrow>
     HTTPServer \<times> response \<times> metric_log" where
  "http_serve spec s meanwhile rq =
     (case mux_route http_routes (rq_path rq) of
        RouteMoved _ \<Rightarrow> (s, status_Moved new_response, [])
      | RouteMissing \<Rightarrow> (s, status_NotFound new_response, [])
      | RouteFound EntropyBinary \<Rightarrow> handleEntropy s meanwhile (rq_now rq) (rq_duration rq) (rq_bytes rq)
      | RouteFound Health \<Rightarrow> (s, handleHealth s meanwhile, [])
      | RouteFound Ready \<Rightarrow> (s, handleReady s, [])
      | RouteFound OpenAPI \<Rightarrow> (s, handleOpenAPI spec, []))"

lemma http_Start_addr:
  "http_Start listen s = Inr l \<Longrightarrow> lst_addr l = srv_addr s \<and> lst_tls l = None \<and> listen (lst_addr l)"
  by (auto simp: http_Start_def split: if_splits)

lemma http_StartTLS_addr:
  "http_StartTLS configure listen s cert key ca auth = Inr l \<Longrightarrow>
     lst_addr l = srv_addr s \<and> listen (lst_addr l) \<and>
     (\<exists>t. lst_tls l = Some t \<and> configure t \<and> tls_CertFile t = cert \<and> tls_KeyFile t = key \<and>
        tls_CAFile t = ca \<and> tls_ClientAuth t = auth)"
  by (auto simp: http_StartTLS_def Let_def split: if_splits)

text \<open>A shutdown without a context cannot wait for ever: it is bounded by the default of five seconds.\<close>

lemma http_Shutdown_bounded:
  assumes "NewHTTPServer addr pool threshold public retry rps burst now = Inr s"
  shows "http_Shutdown closing s NilContext = http_Shutdown closing s (WithTimeout (5 * second))"
    and "http_Shutdown closing s ctx \<noteq> Some ErrServerClosed"
  using assms
  by (auto simp: http_Shutdown_def NewHTTPServer_def Let_def defaultShutdownTimeout_def
      split: sum.splits option.splits shutdown_error.splits)

subsection \<open>Outcomes of an entropy request\<close>

definition request_ok :: "string \<Rightarrow> int \<Rightarrow> bool" where
  "request_ok param n \<longleftrightarrow> requested_bytes param = Some n \<and> minRequestBytes \<le> n \<and> n \<le> maxRequestBytes"

definition limiter_admits :: "HTTPServer \<Rightarrow> int \<Rightarrow> bool" where
  "limiter_admits s now =
     (case srv_rateLimiter s of None \<Rightarrow> True | Some b \<Rightarrow> fst (snd (Allow b now)))"

definition after_limiter :: "HTTPServer \<Rightarrow> int \<Rightarrow> HTTPServer" where
  "after_limiter s now =
     (case srv_rateLimiter s of
        None \<Rightarrow> s | Some b \<Rightarrow> s\<lparr>srv_rateLimiter := Some (fst (Allow b now))\<rparr>)"

lemma after_limiter_pool [simp]:
  "srv_pool (after_limiter s now) = srv_pool s"
  "srv_retryAfterSeconds (after_limiter s now) = srv_retryAfterSeconds s"
  by (simp_all add: after_limiter_def split: option.split)

lemma requested_bytes_Itoa: "in_int64 n \<Longrightarrow> requested_bytes (Itoa n) = Some n"
  using Atoi_Itoa[of n] by (auto simp: requested_bytes_def) (simp add: Itoa_def utoa_nonempty split: if_splits)

lemma setRetryAfter_simps [simp]:
  "resp_status (setRetryAfter s w r) = resp_status r"
  "k \<noteq> ''Retry-After'' \<Longrightarrow> resp_header (setRetryAfter s w r) k = resp_header r k"
  by (simp_all add: setRetryAfter_def Let_def)

definition retry_after :: "HTTPServer \<Rightarrow> int \<Rightarrow> string" where
  "retry_after s w = the (resp_header (setRetryAfter s w new_response) ''Retry-After'')"

lemma setRetryAfter_header [simp]:
  "resp_header (setRetryAfter s w r) ''Retry-After'' = Some (retry_after s w)"
  by (simp add: setRetryAfter_def retry_after_def Let_def)

lemma retry_after_cong: "srv_retryAfterSeconds s = srv_retryAfterSeconds s' \<Longrightarrow> retry_after s w = retry_after s' w"
  by (simp add: setRetryAfter_def retry_after_def Let_def)

definition limiter_wait :: "HTTPServer \<Rightarrow> int \<Rightarrow> int" where
  "limiter_wait s now =
     (case srv_rateLimiter s of None \<Rightarrow> 0 | Some b \<Rightarrow> snd (snd (Allow b now)))"

lemma limiter_step:
  "(case srv_rateLimiter s of
      None \<Rightarrow> (s, True, 0)
    | Some b \<Rightarrow> (case Allow b now of (b', ok, w) \<Rightarrow> (s\<lparr>srv_rateLimiter := Some b'\<rparr>, ok, w))) =
   (after_limiter s now, limiter_admits s now, limiter_wait s now)"
  by (simp add: after_limiter_def limiter_admits_def limiter_wait_def split: option.split prod.split)

lemma request_ok_range:
  assumes "request_ok param n"
  shows "requested_bytes param = Some n" "\<not> (n < minRequestBytes \<or> n > maxRequestBytes)"
  using assms by (auto simp: request_ok_def)

lemmas handleEntropy_accepted = handleEntropy_def[unfolded limiter_step]

text \<open>A malformed or out-of-range request costs neither a token nor entropy.\<close>

lemma handleEntropy_bad_request:
  assumes "\<nexists>n. request_ok param n"
  shows "\<exists>r. handleEntropy s meanwhile now dur param = (s, r, entropy_metrics 400 False dur) \<and>
    resp_status r = 400 \<and> resp_header r ''Cache-Control'' = Some ''no-store''"
proof (cases "requested_bytes param")
  case None
  then show ?thesis by (simp add: handleEntropy_def)
next
  case (Some n)
  with assms have "n < minRequestBytes \<or> n > maxRequestBytes" by (auto simp: request_ok_def)
  with Some show ?thesis by (simp add: handleEntropy_def)
qed

lemma handleEntropy_limited:
  assumes "request_ok param n" and "\<not> limiter_admits s now"
  shows "\<exists>r. handleEntropy s meanwhile now dur param =
      (after_limiter s now, r, entropy_metrics 503 True dur) \<and>
    resp_status r = 503 \<and> resp_header r ''Cache-Control'' = Some ''no-store'' \<and>
    resp_header r ''Retry-After'' = Some (retry_after s (limiter_wait s now))"
  using request_ok_range[OF assms(1)] assms(2) retry_after_cong[of "after_limiter s now" s]
  by (simp add: handleEntropy_accepted)

lemma handleEntropy_no_pool:
  assumes "request_ok param n" and "limiter_admits s now" and "srv_pool s = None"
  shows "\<exists>r. handleEntropy s meanwhile now dur param =
      (after_limiter s now, r, entropy_metrics 503 False dur) \<and>
    resp_status r = 503 \<and> resp_header r ''Cache-Control'' = Some ''no-store'' \<and>
    resp_header r ''Retry-After'' = Some (retry_after s 0)"
  using request_ok_range[OF assms(1)] assms(2,3) retry_after_cong[of "after_limiter s now" s]
  by (simp add: handleEntropy_accepted Let_def)

lemma handleEntropy_refused:
  assumes "request_ok param n" and "limiter_admits s now" and "srv_pool s = Some p"
    and "ExtractEntropy (meanwhile p) n = (p', None, ms)"
  shows "\<exists>r. handleEntropy s meanwhile now dur param =
      ((after_limiter s now)\<lparr>srv_pool := Some p'\<rparr>, r, ms @ entropy_metrics 503 False dur) \<and>
    resp_status r = 503 \<and> resp_header r ''Cache-Control'' = Some ''no-store'' \<and>
    resp_header r ''Retry-After'' = Some (retry_after s 0)"
  using request_ok_range[OF assms(1)] assms(2-4) retry_after_cong[of "after_limiter s now" s]
  by (simp add: handleEntropy_accepted Let_def)

lemma handleEntropy_served:
  assumes "request_ok param n" and "limiter_admits s now" and "srv_pool s = Some p"
    and "ExtractEntropy (meanwhile p) n = (p', Some bs, ms)"
  shows "\<exists>r. handleEntropy s meanwhile now dur param =
      ((after_limiter s now)\<lparr>srv_pool := Some p'\<rparr>, r, ms @ entropy_metrics 200 False dur) \<and>
    resp_status r = 200 \<and> resp_header r ''Cache-Control'' = Some ''no-store'' \<and>
    resp_header r ''X-Entropy-Request'' = Some (Itoa n) \<and>
    resp_header r ''X-Entropy-Available'' = Some (Itoa (AvailableEntropy p)) \<and>
    resp_body r = Bytes bs"
  using request_ok_range[OF assms(1)] assms(2-4)
  by (simp add: handleEntropy_accepted Let_def)

lemma handleEntropy_cases:
  obtains (bad_request) "\<nexists>n. request_ok param n"
  | (limited) n where "request_ok param n" "\<not> limiter_admits s now"
  | (no_pool) n where "request_ok param n" "limiter_admits s now" "srv_pool s = None"
  | (refused) n p p' ms where "request_ok param n" "limiter_admits s now" "srv_pool s = Some p"
      "ExtractEntropy (meanwhile p) n = (p', None, ms)"
  | (served) n p p' bs ms where "request_ok param n" "limiter_admits s now" "srv_pool s = Some p"
      "ExtractEntropy (meanwhile p) n = (p', Some bs, ms)"
proof (cases "\<exists>n. request_ok param n")
  case False
  then show ?thesis using that by blast
next
  case True
  then obtain n where n: "request_ok param n" by blast
  show ?thesis
  proof (cases "srv_pool s")
    case None
    with n that show ?thesis by blast
  next
    case (Some p)
    obtain p' o' ms where "ExtractEntropy (meanwhile p) n = (p', o', ms)"
      by (cases "ExtractEntropy (meanwhile p) n") auto
    with n Some that show ?thesis by (cases o') blast+
  qed
qed

text \<open>
  A successful response carries exactly the number of bytes asked for, between 1 and 4096, and
  these bytes have left the pool.
\<close>

lemma handleEntropy_success:
  assumes "handleEntropy s meanwhile now dur param = (s', r, ms)" and "resp_status r = 200"
  shows "\<exists>n p p' bs. request_ok param n \<and> srv_pool s = Some p \<and> srv_pool s' = Some p' \<and>
    resp_body r = Bytes bs \<and> int (length bs) = n \<and> whitened (meanwhile p) = bs @ whitened p'"
proof (cases rule: handleEntropy_cases[where param = param and s = s and now = now and meanwhile = meanwhile])
  case bad_request
  with assms show ?thesis using handleEntropy_bad_request[of param s meanwhile now dur] by auto
next
  case limited
  with assms show ?thesis using handleEntropy_limited[of param _ s now meanwhile dur] by fastforce
next
  case no_pool
  with assms show ?thesis using handleEntropy_no_pool[of param _ s now meanwhile dur] by fastforce
next
  case refused
  with assms show ?thesis
    using handleEntropy_refused[where meanwhile = meanwhile and dur = dur, OF refused] by auto
next
  case (served n p p' bs ms')
  with assms handleEntropy_served[where meanwhile = meanwhile and dur = dur, OF served] pool_src.extract_Some[OF served(4)]
  show ?thesis by auto
qed

lemma entropy_metrics_log [simp]: "log_ok (entropy_metrics status limited dur)"
  by (simp add: entropy_metrics_def)

lemma handleEntropy_log: "log_ok (snd (snd (handleEntropy s meanwhile now dur param)))"
proof (cases rule: handleEntropy_cases[where param = param and s = s and now = now and meanwhile = meanwhile])
  case bad_request
  with handleEntropy_bad_request[of param s meanwhile now dur] show ?thesis by auto
next
  case (limited n)
  with handleEntropy_limited[OF limited, of meanwhile dur] show ?thesis by auto
next
  case (no_pool n)
  with handleEntropy_no_pool[OF no_pool, of meanwhile dur] show ?thesis by auto
next
  case (refused n p p' ms)
  with handleEntropy_refused[where meanwhile = meanwhile and dur = dur, OF refused] ExtractEntropy_log_ok[of "meanwhile p" n]
  show ?thesis by auto
next
  case (served n p p' bs ms)
  with handleEntropy_served[where meanwhile = meanwhile and dur = dur, OF served] ExtractEntropy_log_ok[of "meanwhile p" n]
  show ?thesis by auto
qed

lemma http_serve_log: "log_ok (snd (snd (http_serve spec s meanwhile rq)))"
  by (simp add: http_serve_def handleEntropy_log split: route.split endpoint.split)

text \<open>Every outcome but success leaves the stored bytes.\<close>

lemma handleEntropy_failure_keeps:
  assumes "handleEntropy s meanwhile now dur param = (s', r, ms)" and "resp_status r \<noteq> 200"
    and "srv_pool s = Some p"
  shows "\<exists>p'. srv_pool s' = Some p' \<and> whitened p' \<in> {whitened p, whitened (meanwhile p)}"
proof (cases rule: handleEntropy_cases[where param = param and s = s and now = now and meanwhile = meanwhile])
  case bad_request
  with assms show ?thesis using handleEntropy_bad_request[of param s meanwhile now dur] by auto
next
  case limited
  with assms show ?thesis using handleEntropy_limited[of param _ s now meanwhile dur] by fastforce
next
  case no_pool
  with assms show ?thesis by simp
next
  case (refused n q p' ms')
  with assms show ?thesis
    using handleEntropy_refused[where meanwhile = meanwhile and dur = dur, OF refused] ExtractEntropy_None[OF refused(4)] by auto
next
  case (served n q p' bs ms')
  with assms show ?thesis using handleEntropy_served[where meanwhile = meanwhile and dur = dur, OF served] by auto
qed

lemma entropy_metrics_counts:
  "count_inc EntropyHTTPRequests (entropy_metrics st rl d) = 1"
  "count_inc EntropyHTTP503Total (entropy_metrics st rl d) = (if st = 503 then 1 else 0)"
  "count_inc EntropyHTTPRateLimited (entropy_metrics st rl d) = (if st = 503 \<and> rl then 1 else 0)"
  by (simp_all add: entropy_metrics_def record_defs Let_def)

lemma ExtractEntropy_http_counts:
  "m \<in> {EntropyHTTPRequests, EntropyHTTP503Total, EntropyHTTPRateLimited} \<Longrightarrow>
     ExtractEntropy p n = (p', o', ms) \<Longrightarrow> count_inc m ms = 0"
  by (cases p n rule: ExtractEntropy_cases) (auto simp: pool_simps record_defs)

lemma handleEntropy_counts:
  assumes "handleEntropy s meanwhile now dur param = (s', r, ms)"
  shows "resp_status r \<in> {200, 400, 503} \<and> count_inc EntropyHTTPRequests ms = 1 \<and>
    count_inc EntropyHTTP503Total ms = (if resp_status r = 503 then 1 else 0) \<and>
    resp_header r ''Cache-Control'' = Some ''no-store'' \<and>
    (resp_status r = 503 \<longrightarrow> (\<exists>w. resp_header r ''Retry-After'' = Some w))"
proof (cases rule: handleEntropy_cases[where param = param and s = s and now = now and meanwhile = meanwhile])
  case bad_request
  with assms show ?thesis
    using handleEntropy_bad_request[of param s meanwhile now dur]
    by (auto simp: entropy_metrics_counts)
next
  case (limited n)
  with assms show ?thesis
    using handleEntropy_limited[OF limited, of meanwhile dur]
    by (auto simp: entropy_metrics_counts)
next
  case (no_pool n)
  with assms show ?thesis
    using handleEntropy_no_pool[OF no_pool, of meanwhile dur]
    by (auto simp: entropy_metrics_counts)
next
  case (refused n p p' ms')
  with assms show ?thesis
    using handleEntropy_refused[where meanwhile = meanwhile and dur = dur, OF refused] ExtractEntropy_http_counts[OF _ refused(4)]
    by (auto simp: entropy_metrics_counts)
next
  case (served n p p' bs ms')
  with assms show ?thesis
    using handleEntropy_served[where meanwhile = meanwhile and dur = dur, OF served] ExtractEntropy_http_counts[OF _ served(4)]
    by (auto simp: entropy_metrics_counts)
qed

lemma handleEntropy_limiter:
  assumes "handleEntropy s meanwhile now dur param = (s', r, ms)"
  shows "count_inc EntropyHTTPRateLimited ms =
      (if (\<exists>n. request_ok param n) \<and> \<not> limiter_admits s now then 1 else 0) \<and>
    (if limiter_admits s now then True else srv_pool s' = srv_pool s) \<and>
    srv_rateLimiter s' =
      (if \<exists>n. request_ok param n then srv_rateLimiter (after_limiter s now) else srv_rateLimiter s) \<and>
    srv_retryAfterSeconds s' = srv_retryAfterSeconds s \<and>
    ((\<exists>n. request_ok param n) \<and> \<not> limiter_admits s now \<longrightarrow>
      resp_header r ''Retry-After'' = Some (retry_after s (limiter_wait s now)))"
proof (cases rule: handleEntropy_cases[where param = param and s = s and now = now and meanwhile = meanwhile])
  case bad_request
  with assms show ?thesis
    using handleEntropy_bad_request[of param s meanwhile now dur] by (auto simp: entropy_metrics_counts)
next
  case (limited n)
  with assms show ?thesis
    using handleEntropy_limited[OF limited, of meanwhile dur] by (auto simp: entropy_metrics_counts)
next
  case (no_pool n)
  with assms show ?thesis
    using handleEntropy_no_pool[OF no_pool, of meanwhile dur] by (auto simp: entropy_metrics_counts)
next
  case (refused n p p' ms')
  with assms show ?thesis
    using handleEntropy_refused[where meanwhile = meanwhile and dur = dur, OF refused]
      ExtractEntropy_http_counts[OF _ refused(4)] by (auto simp: entropy_metrics_counts)
next
  case (served n p p' bs ms')
  with assms show ?thesis
    using handleEntropy_served[where meanwhile = meanwhile and dur = dur, OF served]
      ExtractEntropy_http_counts[OF _ served(4)] by (auto simp: entropy_metrics_counts)
qed

subsection \<open>Binding to loopback\<close>

lemma TrimSpace_default: "TrimSpace defaultHTTPAddress = defaultHTTPAddress"
  by code_simp

lemma enforce_loopback:
  assumes "enforceLoopbackAddr addr False = Inr bound"
  shows "\<exists>host port. SplitHostPort bound = Inr (host, port) \<and> loopback_host host"
proof -
  obtain a host port where sp: "SplitHostPort a = Inr (host, port)"
    and eq: "bound = JoinHostPort ''localhost'' port \<or>
      (\<exists>ip. IsLoopback ip \<and> bound = JoinHostPort (IP_String ip) port)"
    using assms
    by (auto simp: enforceLoopbackAddr_def Let_def split: sum.splits option.splits if_splits prod.splits)
  from eq obtain h where h: "bound = JoinHostPort h port" "loopback_host h"
    by (auto simp: loopback_String) (simp add: loopback_host_def)
  have "SplitHostPort bound = Inr (h, port)"
    unfolding h(1) using SplitHostPort_port[OF sp] loopback_host_chars[OF h(2)]
    by (intro SplitHostPort_JoinHostPort) auto
  with h(2) show ?thesis by blast
qed

lemma retry_after_value:
  assumes "1 \<le> srv_retryAfterSeconds s" and "w \<in> {0, second}"
  shows "retry_after s w = Itoa (srv_retryAfterSeconds s)"
proof -
  have "Seconds second = 1" by code_simp
  with assms show ?thesis by (auto simp: retry_after_def setRetryAfter_def Let_def second_def)
qed

subsection \<open>Properties\<close>

text \<open>C11: Every entropy request ends in one of three ways, whatever the other goroutines do to the
  pool between the two pool calls: 200 with exactly the requested 1 to 4096 bytes, which were at
  the front of the pool and are gone from it; 400 for a malformed or out-of-range count, which
  costs neither a token nor entropy; 503 for a valid count, with a \<open>Retry-After\<close> header and the
  stored bytes as the others left them.\<close>

theorem entropy_request_outcome:
  assumes "handleEntropy s meanwhile now dur param = (s', r, ms)" and "srv_pool s = Some p"
  shows "(resp_status r = 200 \<and> (\<exists>n p' bs. request_ok param n \<and> srv_pool s' = Some p' \<and>
      resp_body r = Bytes bs \<and> int (length bs) = n \<and> whitened (meanwhile p) = bs @ whitened p')) \<or>
    (resp_status r = 400 \<and> (\<nexists>n. request_ok param n) \<and> s' = s) \<or>
    (resp_status r = 503 \<and> (\<exists>n. request_ok param n) \<and> (\<exists>w. resp_header r ''Retry-After'' = Some w) \<and>
      (\<exists>p'. srv_pool s' = Some p' \<and> whitened p' \<in> {whitened p, whitened (meanwhile p)}))"
proof (cases "\<exists>n. request_ok param n")
  case False
  with handleEntropy_bad_request[OF False, of s meanwhile now dur] assms(1) show ?thesis by auto
next
  case True
  have "resp_status r \<noteq> 400"
    using assms(1) True
    by (auto simp: handleEntropy_accepted request_ok_def Let_def split: option.splits if_splits prod.splits)
  with handleEntropy_counts[OF assms(1)] handleEntropy_success[OF assms(1)]
    handleEntropy_failure_keeps[OF assms(1) _ assms(2)] True assms(2) show ?thesis by auto
qed

definition sample_server :: "tokenBucket option \<Rightarrow> HTTPServer" where
  "sample_server limiter =
     \<lparr>srv_pool = Some sample_pool, srv_addr = defaultHTTPAddress,
      srv_shutdownTimeout = defaultShutdownTimeout, srv_readyThreshold = 0,
      srv_rateLimiter = limiter, srv_retryAfterSeconds = 1\<rparr>"

lemma sample_server_extraction: "fst (snd (ExtractEntropy sample_pool 3)) = Some [1, 2, 2]"
proof -
  have "extraction_possible sample_pool 3" by (simp add: extraction_possible_def)
  moreover have "health_passes sample_pool (take (nat 3) (whitened sample_pool))"
    by (simp add: health_passes_def NewRepetitionCountTest_def NewAdaptiveProportionTest_def
        RCT_Test_def APT_Test_def Let_def)
  ultimately show ?thesis using ExtractEntropy_released[of sample_pool 3] by simp
qed

lemma digit_chars: "digit_char 2 = CHR ''2''" "digit_char 3 = CHR ''3''"
  by code_simp+

lemma request_three: "request_ok ''3'' 3"
proof -
  have "Itoa 3 = ''3''" by (simp add: Itoa_def utoa.simps digit_chars)
  then show ?thesis
    using requested_bytes_Itoa[of 3]
    by (simp add: request_ok_def in_int64_def min_int64_def max_int64_def minRequestBytes_def maxRequestBytes_def)
qed

theorem entropy_request_outcome_witness:
  "\<exists>s' r ms. handleEntropy (sample_server None) id 0 0 ''3'' = (s', r, ms) \<and> resp_status r = 200 \<and>
     resp_body r = Bytes [1, 2, 2]"
proof -
  obtain p' ms where e: "ExtractEntropy sample_pool 3 = (p', Some [1, 2, 2], ms)"
    using sample_server_extraction by (cases "ExtractEntropy sample_pool 3") auto
  have p: "srv_pool (sample_server None) = Some sample_pool" "limiter_admits (sample_server None) 0"
    by (simp_all add: sample_server_def limiter_admits_def)
  obtain s' r ms' where h: "handleEntropy (sample_server None) id 0 0 ''3'' = (s', r, ms')"
    "resp_status r = 200" "resp_body r = Bytes [1, 2, 2]"
    using handleEntropy_served[where meanwhile = id and dur = 0, OF request_three p(2,1)] e by auto
  from entropy_request_outcome[OF h(1) p(1)] h show ?thesis by auto
qed

text \<open>C25: Bookkeeping of every request: the response is 200, 400 or 503 and must not be cached; the
  request counter is incremented exactly once, the 503 counter exactly when the response is 503,
  the rate-limit counter exactly when the limiter refused a valid request, and a request refused by
  the limiter leaves the pool alone.\<close>

theorem entropy_request_accounting:
  assumes "handleEntropy s meanwhile now dur param = (s', r, ms)"
  shows "resp_status r \<in> {200, 400, 503} \<and> resp_header r ''Cache-Control'' = Some ''no-store'' \<and>
    count_inc EntropyHTTPRequests ms = 1 \<and>
    count_inc EntropyHTTP503Total ms = (if resp_status r = 503 then 1 else 0) \<and>
    count_inc EntropyHTTPRateLimited ms =
      (if (\<exists>n. request_ok param n) \<and> \<not> limiter_admits s now then 1 else 0) \<and>
    (if limiter_admits s now then True else srv_pool s' = srv_pool s)"
  using handleEntropy_counts[OF assms] handleEntropy_limiter[OF assms] by simp

theorem entropy_request_accounting_witness:
  "\<exists>s' r ms. handleEntropy (sample_server (Some drained_bucket)) id 0 0 ''3'' = (s', r, ms) \<and>
     resp_status r = 503 \<and> count_inc EntropyHTTPRateLimited ms = 1 \<and> srv_pool s' = Some sample_pool"
proof -
  let ?s = "sample_server (Some drained_bucket)"
  have "\<not> fst (snd (Allow drained_bucket 0))" by code_simp
  then have l: "\<not> limiter_admits ?s 0" by (simp add: sample_server_def limiter_admits_def)
  obtain s' r ms where h: "handleEntropy ?s id 0 0 ''3'' = (s', r, ms)" "resp_status r = 503"
    using handleEntropy_limited[OF request_three l, of id 0] by auto
  have "srv_pool ?s = Some sample_pool" by (simp add: sample_server_def)
  with entropy_request_accounting[OF h(1)] h l request_three show ?thesis by auto
qed

text \<open>A server made without public access is bound to the loopback interface, whatever address was
  asked for: the canonical address splits into a host that is \<open>localhost\<close> or an address of the
  loopback range, and a port.\<close>

theorem server_binds_loopback:
  assumes "NewHTTPServer addr pool threshold False retry rps burst now = Inr s"
  shows "\<exists>host port. SplitHostPort (srv_addr s) = Inr (host, port) \<and> loopback_host host"
  using assms enforce_loopback
  by (auto simp: NewHTTPServer_def Let_def split: sum.splits)

lemma default_server_ok:
  "(case enforceLoopbackAddr defaultHTTPAddress False of Inl _ \<Rightarrow> False | Inr _ \<Rightarrow> True)"
  by code_simp

theorem server_binds_loopback_witness:
  "\<exists>s. NewHTTPServer [] None 0 False 1 25 25 0 = Inr s \<and>
     (\<exists>host port. SplitHostPort (srv_addr s) = Inr (host, port) \<and> loopback_host host)"
proof -
  obtain a where "enforceLoopbackAddr defaultHTTPAddress False = Inr a"
    using default_server_ok by (cases "enforceLoopbackAddr defaultHTTPAddress False") auto
  then obtain s where s: "NewHTTPServer [] None 0 False 1 25 25 0 = Inr s"
    by (simp add: NewHTTPServer_def)
  from server_binds_loopback[OF s] s show ?thesis by blast
qed

text \<open>A server built by the constructor limits its clients whatever arguments it was given: its
  limiter starts full and consistent for every non-negative burst a caller configures up to
  \<open>2 ^ 53\<close>, its readiness threshold is not negative, and the \<open>Retry-After\<close> value sent with a
  refused request is the configured number of seconds.\<close>

theorem new_server_limits:
  assumes "NewHTTPServer addr pool threshold public retry rps burst now = Inr s" and "burst \<le> 2 ^ 53"
  shows "\<exists>b. srv_rateLimiter s = Some b \<and> tb_invar b \<and> tb_tokens b = tb_capacity b \<and>
    0 \<le> srv_readyThreshold s \<and>
    retry_after s (if limiter_admits s later then 0 else limiter_wait s later) =
      Itoa (if retry \<le> 0 then 1 else retry)"
proof -
  let ?r = "if rps \<le> 0 then defaultRateLimitRPS else rps"
  let ?b = "if burst \<le> 0 then defaultRateLimitBurst else burst"
  let ?t = "newTokenBucket (float64_of_int ?r) (float64_of_int ?b) now"
  have t: "tb_invar ?t"
    using assms(2) by (intro newTokenBucket_invar) (simp_all add: defaultRateLimitRPS_def defaultRateLimitBurst_def)
  have s: "srv_rateLimiter s = Some ?t" "0 \<le> srv_readyThreshold s"
    "srv_retryAfterSeconds s = (if retry \<le> 0 then 1 else retry)"
    using assms(1) by (auto simp: NewHTTPServer_def Let_def defaultRetryAfterSeconds_def split: sum.splits)
  have "(if limiter_admits s later then 0 else limiter_wait s later) \<in> {0, second}"
    using Allow_wait[OF t, of later] by (simp add: limiter_admits_def limiter_wait_def s(1))
  moreover have "1 \<le> srv_retryAfterSeconds s" using s(3) by simp
  ultimately have "retry_after s (if limiter_admits s later then 0 else limiter_wait s later) =
      Itoa (if retry \<le> 0 then 1 else retry)"
    unfolding s(3)[symmetric] by (intro retry_after_value)
  moreover have "tb_tokens ?t = tb_capacity ?t" by (simp add: newTokenBucket_def Let_def)
  ultimately show ?thesis using s(1,2) t by blast
qed

theorem new_server_limits_witness:
  "\<exists>s b. NewHTTPServer [] None 0 False 2 25 25 0 = Inr s \<and> srv_rateLimiter s = Some b \<and> tb_invar b \<and>
     retry_after s (if limiter_admits s 5 then 0 else limiter_wait s 5) = ''2''"
proof -
  obtain a where "enforceLoopbackAddr defaultHTTPAddress False = Inr a"
    using default_server_ok by (cases "enforceLoopbackAddr defaultHTTPAddress False") auto
  then obtain s where s: "NewHTTPServer [] None 0 False 2 25 25 0 = Inr s"
    by (simp add: NewHTTPServer_def)
  have "Itoa 2 = ''2''" by (simp add: Itoa_def utoa.simps digit_chars)
  with new_server_limits[OF s, of 5] s show ?thesis by auto
qed

text \<open>Readiness is out of reach when the threshold exceeds what the bounds of the pool leave above
  its reserve: however the pool is fed and read, such a server answers 503 for ever.\<close>

theorem ready_threshold_unreachable:
  assumes "srv_readyThreshold s > maxPoolSize p - minPoolSize p" and "pool_invar p" and "1 \<le> srv_readyThreshold s"
  shows "resp_status (handleReady (s\<lparr>srv_pool := Some (fst (pool_run p ops))\<rparr>)) = 503"
proof -
  let ?q = "fst (pool_run p ops)"
  have "maxPoolSize ?q = maxPoolSize p" "minPoolSize ?q = minPoolSize p" "pool_invar ?q"
    using pool_run_config[of p ops] pool_run_invar[OF assms(2)] by auto
  then have "AvailableEntropy ?q < srv_readyThreshold s"
    using assms(1,3) by (auto simp: AvailableEntropy_def pool_invar_def)
  then show ?thesis by (simp add: handleReady_def Let_def)
qed

theorem ready_threshold_unreachable_witness:
  "resp_status (handleReady ((sample_server None)\<lparr>srv_readyThreshold := 512,
     srv_pool := Some (fst (pool_run (NewWhitenedPoolWithBounds 512 1000) [PoolAdd [e], PoolAdd [e]]))\<rparr>)) = 503"
  using ready_threshold_unreachable[of "NewWhitenedPoolWithBounds 512 1000"
      "(sample_server None)\<lparr>srv_readyThreshold := 512\<rparr>" "[PoolAdd [e], PoolAdd [e]]"] new_pool_invar[of 512 1000]
  by (simp add: NewWhitenedPoolWithBounds_def Let_def)

end
