(* ===== verification/Entropy_Service.thy ===== *)
theory Entropy_Service
  imports Http_Server
begin

text \<open>
  The entropy server in service: an interleaving of batches that reach the pool and of requests on
  any route, as \<open>http_serve\<close> handles them. What is shown here holds for all clients together: the
  bytes of all successful entropy responses, in the order of their extractions, and what the one
  rate limiter, with its \<^verbatim>\<open>Retry-After\<close> header, does to the requests of all of them.
\<close>

subsection \<open>Service\<close>

text \<open>
  The batches listed with a request are those that arrive while it is served. Between the two pool
  calls of the entropy handler they are its \<open>meanwhile\<close>; a request that extracts nothing does not
  touch the pool, and they come after it.
\<close>

datatype service_op = Feed "TDCEvent list" | Request http_request "TDCEvent list list"

definition feed :: "TDCEvent list list \<Rightarrow> WhitenedPool \<Rightarrow> WhitenedPool" where
  "feed batches p = fold (\<lambda>events q. fst (AddBatch q events)) batches p"

definition is_entropy_request :: "http_request \<Rightarrow> bool" where
  "is_entropy_request rq \<longleftrightarrow> mux_route http_routes (rq_path rq) = RouteFound EntropyBinary"

definition reaches_pool :: "HTTPServer \<Rightarrow> http_request \<Rightarrow> bool" where
  "reaches_pool s rq \<longleftrightarrow> is_entropy_request rq \<and> limiter_admits s (rq_now rq) \<and>
     (case requested_bytes (rq_bytes rq) of
        None \<Rightarrow> False | Some n \<Rightarrow> minRequestBytes \<le> n \<and> n \<le> maxRequestBytes)"

definition entropy_body :: "http_request \<Rightarrow> response \<Rightarrow> byte list" where
  "entropy_body rq r =
     (if is_entropy_request rq then (case resp_body r of Bytes bs \<Rightarrow> bs | _ \<Rightarrow> []) else [])"

fun service_step :: "byte list \<Rightarrow> HTTPServer \<Rightarrow> service_op \<Rightarrow> HTTPServer \<times> byte list" where
  "service_step spec s (Feed events) = (s\<lparr>srv_pool := map_option (feed [events]) (srv_pool s)\<rparr>, [])"
| "service_step spec s (Request rq batches) =
     (case http_serve spec s (feed batches) rq of
        (s', r, _) \<Rightarrow>
          (if reaches_pool s rq then s' else s'\<lparr>srv_pool := map_option (feed batches) (srv_pool s')\<rparr>,
           entropy_body rq r))"

fun service_run :: "byte list \<Rightarrow> HTTPServer \<Rightarrow> service_op list \<Rightarrow> HTTPServer \<times> byte list list" where
  "service_run spec s [] = (s, [])"
| "service_run spec s (op # ops) =
     (case service_step spec s op of (s1, out) \<Rightarrow>
        case service_run spec s1 ops of (s2, outs) \<Rightarrow> (s2, out # outs))"

fun arriving :: "service_op list \<Rightarrow> TDCEvent list list" where
  "arriving [] = []"
| "arriving (Feed events # ops) = events # arriving ops"
| "arriving (Request rq batches # ops) = batches @ arriving ops"

definition hashes :: "TDCEvent list list \<Rightarrow> byte list" where
  "hashes batches = concat (map batch_bytes batches)"

lemma hashes_simps [simp]:
  "hashes [] = []" "hashes (b # bs) = batch_bytes b @ hashes bs" "hashes (xs @ ys) = hashes xs @ hashes ys"
  by (simp_all add: hashes_def)

subsection \<open>One step\<close>

lemma feed_subseq: "subseq (whitened (feed batches p)) (whitened p @ hashes batches)"
proof (induction batches arbitrary: p)
  case (Cons events batches)
  let ?q = "fst (AddBatch p events)"
  have "subseq (whitened ?q @ hashes batches) ((whitened p @ batch_bytes events) @ hashes batches)"
    by (intro list_emb_append_mono) (simp_all add: AddBatch_pool keep_newest_subseq)
  with Cons.IH[of ?q] show ?case
    by (auto simp: feed_def intro: subseq_order.trans)
qed (simp add: feed_def)

lemma reaches_pool_iff:
  "reaches_pool s rq \<longleftrightarrow>
     is_entropy_request rq \<and> limiter_admits s (rq_now rq) \<and> (\<exists>n. request_ok (rq_bytes rq) n)"
  by (auto simp: reaches_pool_def request_ok_def split: option.split)

lemma http_serve_routes:
  "http_serve spec s meanwhile rq =
     (if is_entropy_request rq then handleEntropy s meanwhile (rq_now rq) (rq_duration rq) (rq_bytes rq)
      else (s, fst (snd (http_serve spec s meanwhile rq)), []))"
  by (auto simp: http_serve_def is_entropy_request_def split: route.split endpoint.split)

lemma entropy_body_only_200:
  assumes "handleEntropy s meanwhile now dur param = (s', r, ms)" and "is_entropy_request rq"
    and "resp_status r \<noteq> 200"
  shows "entropy_body rq r = []"
  using assms
  by (auto simp: handleEntropy_accepted entropy_body_def Let_def split: option.splits if_splits prod.splits)

text \<open>A request that does not reach the pool leaves it alone and gets no entropy.\<close>

lemma unreached_pool:
  assumes "http_serve spec s meanwhile rq = (s', r, ms)" and "\<not> reaches_pool s rq"
  shows "srv_pool s' = srv_pool s \<and> entropy_body rq r = []"
proof (cases "is_entropy_request rq")
  case True
  with assms(1) have h: "handleEntropy s meanwhile (rq_now rq) (rq_duration rq) (rq_bytes rq) = (s', r, ms)"
    by (simp add: http_serve_def is_entropy_request_def)
  consider "\<nexists>n. request_ok (rq_bytes rq) n" | n where "request_ok (rq_bytes rq) n" "\<not> limiter_admits s (rq_now rq)"
    using assms(2) True by (auto simp: reaches_pool_iff)
  then have "srv_pool s' = srv_pool s \<and> resp_status r \<noteq> 200"
  proof cases
    case 1
    with h handleEntropy_bad_request[OF 1, of s meanwhile "rq_now rq" "rq_duration rq"] show ?thesis by auto
  next
    case (2 n)
    with h handleEntropy_limited[OF 2, of meanwhile "rq_duration rq"] show ?thesis by auto
  qed
  with entropy_body_only_200[OF h True] show ?thesis by simp
next
  case False
  with assms(1) http_serve_routes[of spec s meanwhile rq] show ?thesis by (auto simp: entropy_body_def)
qed

text \<open>One that reaches it takes its bytes from the front, or none.\<close>

lemma reached_pool:
  assumes "http_serve spec s meanwhile rq = (s', r, ms)" and "reaches_pool s rq" and "srv_pool s = Some p"
  shows "\<exists>p'. srv_pool s' = Some p' \<and> whitened (meanwhile p) = entropy_body rq r @ whitened p'"
proof -
  have e: "is_entropy_request rq" "limiter_admits s (rq_now rq)" using assms(2) by (simp_all add: reaches_pool_iff)
  obtain n where n: "request_ok (rq_bytes rq) n" using assms(2) by (auto simp: reaches_pool_iff)
  from assms(1) e(1) have h: "handleEntropy s meanwhile (rq_now rq) (rq_duration rq) (rq_bytes rq) = (s', r, ms)"
    by (simp add: http_serve_def is_entropy_request_def)
  obtain p' out ms' where x: "ExtractEntropy (meanwhile p) n = (p', out, ms')"
    by (cases "ExtractEntropy (meanwhile p) n") auto
  show ?thesis
  proof (cases out)
    case None
    note r = handleEntropy_refused[where meanwhile = meanwhile and dur = "rq_duration rq",
        OF n e(2) assms(3) x[unfolded None]]
    with h have "resp_status r \<noteq> 200" "srv_pool s' = Some p'" by auto
    with entropy_body_only_200[OF h e(1)] ExtractEntropy_None[OF x[unfolded None]] show ?thesis by simp
  next
    case (Some bs)
    note r = handleEntropy_served[where meanwhile = meanwhile and dur = "rq_duration rq",
        OF n e(2) assms(3) x[unfolded Some]]
    with h e(1) have "entropy_body rq r = bs" "srv_pool s' = Some p'" by (auto simp: entropy_body_def)
    with pool_src.extract_Some[OF x[unfolded Some]] show ?thesis by simp
  qed
qed

lemma service_step_subseq:
  assumes "srv_pool s = Some p"
  shows "\<exists>p'. srv_pool (fst (service_step spec s op)) = Some p' \<and>
    subseq (snd (service_step spec s op) @ whitened p') (whitened p @ hashes (arriving [op]))"
proof (cases op)
  case (Feed events)
  with assms feed_subseq[of "[events]" p] show ?thesis by simp
next
  case (Request rq batches)
  obtain s' r ms where h: "http_serve spec s (feed batches) rq = (s', r, ms)"
    by (cases "http_serve spec s (feed batches) rq") auto
  show ?thesis
  proof (cases "reaches_pool s rq")
    case True
    from reached_pool[OF h True assms] feed_subseq[of batches p] Request h True show ?thesis by auto
  next
    case False
    from unreached_pool[OF h False] feed_subseq[of batches p] Request h False assms show ?thesis by auto
  qed
qed

lemma service_run_subseq:
  assumes "srv_pool s = Some p"
  shows "\<exists>p'. srv_pool (fst (service_run spec s ops)) = Some p' \<and>
    subseq (concat (snd (service_run spec s ops)) @ whitened p') (whitened p @ hashes (arriving ops))"
  using assms
proof (induction ops arbitrary: s p)
  case (Cons op ops)
  let ?s1 = "fst (service_step spec s op)" and ?out = "snd (service_step spec s op)"
  obtain p1 where p1: "srv_pool ?s1 = Some p1"
    "subseq (?out @ whitened p1) (whitened p @ hashes (arriving [op]))"
    using service_step_subseq[OF Cons.prems] by blast
  obtain p2 where p2: "srv_pool (fst (service_run spec ?s1 ops)) = Some p2"
    "subseq (concat (snd (service_run spec ?s1 ops)) @ whitened p2) (whitened p1 @ hashes (arriving ops))"
    using Cons.IH[OF p1(1)] by blast
  have tail: "subseq (?out @ concat (snd (service_run spec ?s1 ops)) @ whitened p2)
      (?out @ whitened p1 @ hashes (arriving ops))"
    by (rule list_emb_append_mono[OF _ p2(2)]) simp
  have "subseq ((?out @ whitened p1) @ hashes (arriving ops))
      ((whitened p @ hashes (arriving [op])) @ hashes (arriving ops))"
    by (rule list_emb_append_mono[OF p1(2)]) simp
  then have "subseq (?out @ whitened p1 @ hashes (arriving ops)) (whitened p @ hashes (arriving (op # ops)))"
    by (cases op) simp_all
  from subseq_order.trans[OF tail this] show ?case using p2(1) by (simp add: case_prod_beta)
qed simp

subsection \<open>The limiter in service\<close>

text \<open>
  Between the start and the latest clock reading, every state of a served server has a consistent
  limiter whose last refill lies in that time, and the configured retry interval.
\<close>

definition service_inv :: "int \<Rightarrow> int \<Rightarrow> HTTPServer \<Rightarrow> bool" where
  "service_inv retry now s \<longleftrightarrow> srv_retryAfterSeconds s = retry \<and>
     (\<exists>b. srv_rateLimiter s = Some b \<and> tb_invar b \<and> 0 \<le> tb_lastRefill b \<and> tb_lastRefill b \<le> now)"

fun op_time_ok :: "int \<Rightarrow> service_op \<Rightarrow> bool" where
  "op_time_ok now (Feed _) = True"
| "op_time_ok now (Request rq _) = (0 \<le> rq_now rq \<and> rq_now rq \<le> now)"

lemma after_limiter_inv:
  assumes "service_inv retry now s" and "0 \<le> t" and "t \<le> now" and "now \<le> max_int64"
  shows "service_inv retry now (after_limiter s t)"
proof -
  obtain b where b: "srv_rateLimiter s = Some b" "tb_invar b" "0 \<le> tb_lastRefill b" "tb_lastRefill b \<le> now"
    using assms(1) by (auto simp: service_inv_def)
  have "in_int64 (t - tb_lastRefill b)"
    using b(3,4) assms(2-4) by (simp add: in_int64_def min_int64_def max_int64_def)
  from tb_lastRefill_Allow[OF this] Allow_invar[OF b(2), of t] b assms(1-3) show ?thesis
    by (auto simp: service_inv_def after_limiter_def)
qed

lemma http_serve_inv:
  assumes "service_inv retry now s" and "0 \<le> rq_now rq" and "rq_now rq \<le> now" and "now \<le> max_int64"
    and "http_serve spec s meanwhile rq = (s', r, ms)"
  shows "service_inv retry now s'"
proof (cases "is_entropy_request rq")
  case True
  with assms(5) have h: "handleEntropy s meanwhile (rq_now rq) (rq_duration rq) (rq_bytes rq) = (s', r, ms)"
    by (simp add: http_serve_def is_entropy_request_def)
  from handleEntropy_limiter[OF h] after_limiter_inv[OF assms(1-4)] assms(1) show ?thesis
    by (auto simp: service_inv_def split: if_splits)
next
  case False
  with assms(1,5) http_serve_routes[of spec s meanwhile rq] show ?thesis by auto
qed

lemma service_step_inv:
  assumes "service_inv retry now s" and "op_time_ok now op" and "now \<le> max_int64"
  shows "service_inv retry now (fst (service_step spec s op))"
proof (cases op)
  case (Feed events)
  with assms(1) show ?thesis by (simp add: service_inv_def)
next
  case (Request rq batches)
  obtain s' r ms where h: "http_serve spec s (feed batches) rq = (s', r, ms)"
    by (cases "http_serve spec s (feed batches) rq") auto
  with http_serve_inv[OF assms(1) _ _ assms(3) h] assms(2) Request show ?thesis
    by (simp add: service_inv_def)
qed

lemma service_run_inv:
  assumes "service_inv retry now s" and "\<forall>op \<in> set ops. op_time_ok now op" and "now \<le> max_int64"
  shows "service_inv retry now (fst (service_run spec s ops))"
  using assms(1,2)
proof (induction ops arbitrary: s)
  case (Cons op ops)
  from service_step_inv[OF Cons.prems(1) _ assms(3), of op spec] Cons show ?case
    by (simp add: case_prod_beta)
qed simp

lemma new_server_inv:
  assumes "NewHTTPServer addr pool threshold public retry rps burst start = Inr s" and "burst \<le> 2 ^ 53"
    and "0 \<le> start" and "start \<le> now"
  shows "service_inv (if retry \<le> 0 then 1 else retry) now s"
proof -
  let ?r = "if rps \<le> 0 then defaultRateLimitRPS else rps"
  let ?b = "if burst \<le> 0 then defaultRateLimitBurst else burst"
  let ?t = "newTokenBucket (float64_of_int ?r) (float64_of_int ?b) start"
  have "tb_invar ?t"
    using assms(2) by (intro newTokenBucket_invar) (simp_all add: defaultRateLimitRPS_def defaultRateLimitBurst_def)
  moreover have "tb_lastRefill ?t = start" by (simp add: newTokenBucket_def Let_def)
  moreover have "srv_rateLimiter s = Some ?t" "srv_retryAfterSeconds s = (if retry \<le> 0 then 1 else retry)"
    using assms(1) by (auto simp: NewHTTPServer_def Let_def defaultRetryAfterSeconds_def split: sum.splits)
  ultimately show ?thesis using assms(3,4) by (simp add: service_inv_def)
qed

subsection \<open>Properties\<close>

text \<open>C10: No byte is served twice: whatever batches arrive and whatever requests any clients send on
  any route, the bytes of all entropy responses in their order, followed by the bytes still stored,
  are a subsequence of the bytes stored at first followed by the hashes of the batches that arrived.\<close>

theorem served_bytes_are_fresh:
  assumes "srv_pool s = Some p"
  shows "\<exists>p'. srv_pool (fst (service_run spec s ops)) = Some p' \<and>
    subseq (concat (snd (service_run spec s ops)) @ whitened p') (whitened p @ hashes (arriving ops))"
  using assms by (rule service_run_subseq)

definition three_bytes :: http_request where
  "three_bytes = \<lparr>rq_path = ''/api/v1/entropy/binary'', rq_bytes = ''3'', rq_now = 0, rq_duration = 0\<rparr>"

theorem served_bytes_are_fresh_witness:
  "\<exists>p'. srv_pool (fst (service_run [] (sample_server None) [Request three_bytes []])) = Some p' \<and>
     snd (service_run [] (sample_server None) [Request three_bytes []]) = [[1, 2, 2]] \<and>
     subseq ([1, 2, 2] @ whitened p') (whitened sample_pool)"
proof -
  let ?s = "sample_server None"
  obtain p' ms where e: "ExtractEntropy sample_pool 3 = (p', Some [1, 2, 2], ms)"
    using sample_server_extraction by (cases "ExtractEntropy sample_pool 3") auto
  have p: "srv_pool ?s = Some sample_pool" "limiter_admits ?s 0"
    by (simp_all add: sample_server_def limiter_admits_def)
  have clean: "cleanPath ''/api/v1/entropy/binary'' = ''/api/v1/entropy/binary''" by code_simp
  have rq: "is_entropy_request three_bytes" "rq_bytes three_bytes = ''3''" "rq_now three_bytes = 0"
    using clean by (simp_all add: three_bytes_def is_entropy_request_def mux_route_def http_routes_def baseUrlV1_def)
  have "snd (service_run [] ?s [Request three_bytes []]) = [[1, 2, 2]]"
    using handleEntropy_served[where meanwhile = "feed []" and dur = "rq_duration three_bytes",
        OF request_three p(2,1)] e rq
    by (auto simp: http_serve_routes entropy_body_def feed_def)
  with served_bytes_are_fresh[OF p(1), of "[]" "[Request three_bytes []]"] show ?thesis by auto
qed

text \<open>C24: A client that honours \<open>Retry-After\<close> is not turned away again: whatever was served before, a
  request that the limiter refuses is told the configured number of seconds (1 when none is
  configured), and the next entropy request, if it comes no earlier than that and no other request
  comes in between, is not refused by the limiter.\<close>

theorem honoured_retry_is_admitted:
  assumes "NewHTTPServer addr pool threshold public retry rps burst start = Inr s0" and "burst \<le> 2 ^ 53"
    and "0 \<le> start" and "start \<le> rq_now rq" and "\<forall>op \<in> set ops. op_time_ok (rq_now rq) op"
    and "http_serve spec (fst (service_run spec s0 ops)) meanwhile rq = (s1, r1, ms1)"
    and "count_inc EntropyHTTPRateLimited ms1 = 1"
    and "rq_now rq + (if retry \<le> 0 then 1 else retry) * second \<le> rq_now rq'" and "rq_now rq' \<le> max_int64"
    and "http_serve spec s1 meanwhile' rq' = (s2, r2, ms2)"
  shows "resp_header r1 ''Retry-After'' = Some (Itoa (if retry \<le> 0 then 1 else retry)) \<and>
    count_inc EntropyHTTPRateLimited ms2 = 0"
proof -
  let ?retry = "if retry \<le> 0 then 1 else retry" and ?s = "fst (service_run spec s0 ops)"
  have retry: "second \<le> ?retry * second" by (simp add: second_def)
  then have t: "0 \<le> rq_now rq" "rq_now rq + second \<le> rq_now rq'" "rq_now rq \<le> max_int64"
    using assms(3,4,8,9) by (auto simp: second_def split: if_splits)
  have inv: "service_inv ?retry (rq_now rq) ?s"
    using service_run_inv[OF new_server_inv[OF assms(1-4)] assms(5) t(3)] .
  have "is_entropy_request rq"
    using assms(6,7) http_serve_routes[of spec ?s meanwhile rq] by (cases "is_entropy_request rq") auto
  with assms(6) have h: "handleEntropy ?s meanwhile (rq_now rq) (rq_duration rq) (rq_bytes rq) = (s1, r1, ms1)"
    by (simp add: http_serve_def is_entropy_request_def)
  note lim = handleEntropy_limiter[OF h]
  have refused: "\<exists>n. request_ok (rq_bytes rq) n" "\<not> limiter_admits ?s (rq_now rq)"
    using lim assms(7) by (auto split: if_splits)
  obtain b where b: "srv_rateLimiter ?s = Some b" "tb_invar b" "0 \<le> tb_lastRefill b" "tb_lastRefill b \<le> rq_now rq"
    using inv by (auto simp: service_inv_def)
  have "limiter_wait ?s (rq_now rq) = second"
    using Allow_wait[OF b(2)] refused(2) b(1) by (simp add: limiter_wait_def limiter_admits_def)
  moreover have "srv_retryAfterSeconds ?s = ?retry" using inv by (simp add: service_inv_def)
  ultimately have told: "resp_header r1 ''Retry-After'' = Some (Itoa ?retry)"
    using lim refused retry_after_value[of ?s second] by simp
  have rng: "in_int64 (rq_now rq - tb_lastRefill b)"
    using b(3,4) t(1,3) by (simp add: in_int64_def min_int64_def max_int64_def)
  let ?b1 = "fst (Allow b (rq_now rq))"
  have b1: "srv_rateLimiter s1 = Some ?b1" "tb_lastRefill ?b1 = rq_now rq" "tb_invar ?b1"
    using lim refused(1) b(1,4) tb_lastRefill_Allow[OF rng] Allow_invar[OF b(2)]
    by (auto simp: after_limiter_def split: if_splits)
  have "fst (snd (Allow ?b1 (rq_now rq')))"
    using b1 t assms(9) by (intro Allow_after_second) (simp_all add: in_int64_def min_int64_def max_int64_def second_def)
  then have adm: "limiter_admits s1 (rq_now rq')" by (simp add: limiter_admits_def b1(1))
  have "count_inc EntropyHTTPRateLimited ms2 = 0"
  proof (cases "is_entropy_request rq'")
    case True
    with assms(10) have "handleEntropy s1 meanwhile' (rq_now rq') (rq_duration rq') (rq_bytes rq') = (s2, r2, ms2)"
      by (simp add: http_serve_def is_entropy_request_def)
    from handleEntropy_limiter[OF this] adm show ?thesis by simp
  next
    case False
    with assms(10) http_serve_routes[of spec s1 meanwhile' rq'] show ?thesis by simp
  qed
  with told show ?thesis ..
qed

text \<open>A server that admits one request, refuses the second, and admits the third after two seconds.\<close>

theorem honoured_retry_is_admitted_witness:
  "\<exists>s0 s1 r1 ms1 s2 r2 ms2. NewHTTPServer [] (Some sample_pool) 0 False 2 1 1 0 = Inr s0 \<and>
     http_serve [] (fst (service_run [] s0 [Request three_bytes []])) id three_bytes = (s1, r1, ms1) \<and>
     resp_header r1 ''Retry-After'' = Some (Itoa 2) \<and>
     http_serve [] s1 id (three_bytes\<lparr>rq_now := 2 * second\<rparr>) = (s2, r2, ms2) \<and>
     count_inc EntropyHTTPRateLimited ms2 = 0"
proof -
  obtain a where "enforceLoopbackAddr defaultHTTPAddress False = Inr a"
    using default_server_ok by (cases "enforceLoopbackAddr defaultHTTPAddress False") auto
  then obtain s0 where s0: "NewHTTPServer [] (Some sample_pool) 0 False 2 1 1 0 = Inr s0"
    "srv_rateLimiter s0 = Some (newTokenBucket 1 1 0)"
    by (simp add: NewHTTPServer_def float64_of_int_exact)
  have clean: "cleanPath ''/api/v1/entropy/binary'' = ''/api/v1/entropy/binary''" by code_simp
  have rq: "is_entropy_request three_bytes" "rq_bytes three_bytes = ''3''" "rq_now three_bytes = 0"
    using clean by (simp_all add: three_bytes_def is_entropy_request_def mux_route_def http_routes_def baseUrlV1_def)
  let ?s = "fst (service_run [] s0 [Request three_bytes []])"
  have step: "http_serve [] s m three_bytes = handleEntropy s m 0 (rq_duration three_bytes) ''3''" for s m
    using http_serve_routes[of "[]" s m three_bytes] rq by simp
  obtain sa ra ma where first: "handleEntropy s0 (feed []) 0 (rq_duration three_bytes) ''3'' = (sa, ra, ma)"
    by (cases "handleEntropy s0 (feed []) 0 (rq_duration three_bytes) ''3''") auto
  have "srv_rateLimiter sa = Some (fst (Allow (newTokenBucket 1 1 0) 0))"
    using handleEntropy_limiter[OF first] request_three s0(2) by (auto simp: after_limiter_def split: if_splits)
  moreover have "srv_rateLimiter ?s = srv_rateLimiter sa" by (simp add: step first)
  moreover have "fst (Allow (newTokenBucket 1 1 0) 0) = drained_bucket" by code_simp
  ultimately have lim: "srv_rateLimiter ?s = Some drained_bucket" by simp
  have "\<not> fst (snd (Allow drained_bucket 0))" by code_simp
  then have ref: "\<not> limiter_admits ?s 0" unfolding limiter_admits_def lim by simp
  obtain s1 r1 ms1 where h1: "http_serve [] ?s id three_bytes = (s1, r1, ms1)"
    by (cases "http_serve [] ?s id three_bytes") auto
  have c1: "count_inc EntropyHTTPRateLimited ms1 = 1"
    using handleEntropy_limiter[OF h1[unfolded step]] ref request_three by auto
  obtain s2 r2 ms2 where h2: "http_serve [] s1 id (three_bytes\<lparr>rq_now := 2 * second\<rparr>) = (s2, r2, ms2)"
    by (cases "http_serve [] s1 id (three_bytes\<lparr>rq_now := 2 * second\<rparr>)") auto
  have ops: "\<forall>op \<in> set [Request three_bytes []]. op_time_ok (rq_now three_bytes) op" by (simp add: rq)
  have n: "(1 :: int) \<le> 2 ^ 53" "(0 :: int) \<le> 0" "0 \<le> rq_now three_bytes" by (simp_all add: rq)
  have t: "rq_now three_bytes + (if 2 \<le> (0 :: int) then 1 else 2) * second \<le> rq_now (three_bytes\<lparr>rq_now := 2 * second\<rparr>)"
    "rq_now (three_bytes\<lparr>rq_now := 2 * second\<rparr>) \<le> max_int64"
    by (simp_all add: rq second_def max_int64_def)
  from honoured_retry_is_admitted[OF s0(1) n ops h1 c1 t h2] s0(1) h1 h2 show ?thesis by auto
qed

end
