(* ===== verification/Metrics_Server.thy ===== *)
theory Metrics_Server
  imports Go_Http
begin

text \<open>
  The metrics HTTP server of \<^verbatim>\<open>internal/metrics/http_metric_server.go\<close>: the check of its address,
  its two routes, and the results of starting and stopping it. Arguments are the answers of the
  environment: \<open>lookup\<close> whether a host name resolves, \<open>configure\<close> whether certificates load,
  \<open>serve\<close> how the blocking call of the library ends, \<open>closing\<close> how its shutdown ends. The handler
  of the metrics route belongs to the Prometheus library.
\<close>

subsection \<open>The server\<close>

definition metrics_baseUrlV1 :: string where "metrics_baseUrlV1 = ''/api/v1''"

datatype metrics_endpoint = PrometheusHandler | MetricsHealth

record Server =
  ms_addr :: string
  ms_mux :: "metrics_endpoint mux"

definition NewServer :: "string \<Rightarrow> Server" where
  "NewServer addr =
     \<lparr>ms_addr = addr,
      ms_mux = [(metrics_baseUrlV1 @ ''/metrics'', PrometheusHandler),
                (metrics_baseUrlV1 @ ''/health'', MetricsHealth)]\<rparr>"

text \<open>\<open>promhttp\<close> answers the metrics route.\<close>

definition metrics_serve :: "response \<Rightarrow> Server \<Rightarrow> string \<Rightarrow> response" where
  "metrics_serve promhttp s path =
     (case mux_route (ms_mux s) path of
        RouteMoved _ \<Rightarrow> status_Moved new_response
      | RouteMissing \<Rightarrow> status_NotFound new_response
      | RouteFound PrometheusHandler \<Rightarrow> promhttp
      | RouteFound MetricsHealth \<Rightarrow> new_response\<lparr>resp_status := 200, resp_body := Text ''OK''\<rparr>)"

datatype address_error = EmptyAddress | InvalidHostPort addr_error | PortRequired | CannotResolve string

definition validateAddress :: "(string \<Rightarrow> bool) \<Rightarrow> string \<Rightarrow> address_error option" where
  "validateAddress lookup addr =
     (if addr = [] then Some EmptyAddress
      else case SplitHostPort addr of
             Inl err \<Rightarrow> Some (InvalidHostPort err)
           | Inr (host, port) \<Rightarrow>
               if port = [] then Some PortRequired
               else if host = [] \<or> host = ''0.0.0.0'' \<or> host = ''::'' then None
               else if ParseIP host \<noteq> None then None
               else if \<not> lookup host then Some (CannotResolve host)
               else None)"

datatype metrics_error =
    InvalidServerAddress address_error | MetricsTLSFailed | ServeError | ShutdownError shutdown_error

text \<open>The library's serving call ends with no error, because the server was shut down, or otherwise.\<close>

datatype serve_error = ServerClosed | ServeBroke

definition metrics_Start ::
    "(string \<Rightarrow> bool) \<Rightarrow> (string \<Rightarrow> tls_config option \<Rightarrow> serve_error option) \<Rightarrow> Server \<Rightarrow> metrics_error option" where
  "metrics_Start lookup serve s =
     (case validateAddress lookup (ms_addr s) of
        Some err \<Rightarrow> Some (InvalidServerAddress err)
      | None \<Rightarrow>
          (case serve (ms_addr s) None of
             Some err \<Rightarrow> if err \<noteq> ServerClosed then Some ServeError else None
           | None \<Rightarrow> None))"

definition metrics_StartTLS ::
    "(string \<Rightarrow> bool) \<Rightarrow> (tls_config \<Rightarrow> bool) \<Rightarrow> (string \<Rightarrow> tls_config option \<Rightarrow> serve_error option) \<Rightarrow>
     Server \<Rightarrow> string \<Rightarrow> string \<Rightarrow> string \<Rightarrow> client_auth_type \<Rightarrow> metrics_error option" where
  "metrics_StartTLS lookup configure serve s certFile keyFile caFile clientAuth =
     (case validateAddress lookup (ms_addr s) of
        Some err \<Rightarrow> Some (InvalidServerAddress err)
      | None \<Rightarrow>
          let tlsConfig = \<lparr>tls_CertFile = certFile, tls_KeyFile = keyFile, tls_CAFile = caFile,
                           tls_ClientAuth = clientAuth\<rparr>
          in if \<not> configure tlsConfig then Some MetricsTLSFailed
             else case serve (ms_addr s) (Some tlsConfig) of
                    Some err \<Rightarrow> if err \<noteq> ServerClosed then Some ServeError else None
                  | None \<Rightarrow> None)"

definition metrics_Shutdown ::
    "(go_context \<Rightarrow> shutdown_error option) \<Rightarrow> Server \<Rightarrow> go_context \<Rightarrow> metrics_error option" where
  "metrics_Shutdown closing s ctx = map_option ShutdownError (closing ctx)"

subsection \<open>The address check\<close>

lemma SplitHostPort_Nil: "SplitHostPort [] = Inl MissingPort"
  by (simp add: SplitHostPort_def LastIndexByte_def IndexByte_def)

text \<open>
  An address is accepted exactly when it splits into a host and a non-empty port and the host is
  empty, an IP address, or resolves; the two wildcards the code names are IP addresses anyway.
\<close>

lemma wildcards_are_addresses: "ParseIP ''0.0.0.0'' \<noteq> None \<and> ParseIP ''::'' \<noteq> None"
  by code_simp

lemma validateAddress_iff:
  "validateAddress lookup addr = None \<longleftrightarrow>
     (\<exists>host port. SplitHostPort addr = Inr (host, port) \<and> port \<noteq> [] \<and>
        (host = [] \<or> ParseIP host \<noteq> None \<or> lookup host))"
  using wildcards_are_addresses
  by (auto simp: validateAddress_def SplitHostPort_Nil split: sum.split)

text \<open>No server is brought up on an address that fails the check, with or without TLS.\<close>

lemma metrics_start_checked:
  assumes "validateAddress lookup (ms_addr s) \<noteq> None"
  shows "metrics_Start lookup serve s \<noteq> None \<and>
    metrics_StartTLS lookup configure serve s cert key ca auth \<noteq> None \<and>
    metrics_Start lookup serve s = metrics_Start lookup serve' s \<and>
    metrics_StartTLS lookup configure serve s cert key ca auth =
      metrics_StartTLS lookup configure' serve' s cert key ca auth"
  using assms by (auto simp: metrics_Start_def metrics_StartTLS_def)

text \<open>A regular shutdown is no error of the serving goroutine.\<close>

lemma metrics_closed_is_no_error:
  assumes "validateAddress lookup (ms_addr s) = None" and "\<And>a t. serve a t = Some ServerClosed"
  shows "metrics_Start lookup serve s = None \<and>
    (metrics_StartTLS lookup configure serve s cert key ca auth = None \<longleftrightarrow>
      configure \<lparr>tls_CertFile = cert, tls_KeyFile = key, tls_CAFile = ca, tls_ClientAuth = auth\<rparr>)"
  using assms by (auto simp: metrics_Start_def metrics_StartTLS_def Let_def)

lemma metrics_paths_clean:
  "cleanPath ''/api/v1/health'' = ''/api/v1/health''" "cleanPath ''/api/v1/metrics'' = ''/api/v1/metrics''"
  by code_simp+

lemma metrics_health:
  "resp_status (metrics_serve promhttp (NewServer addr) ''/api/v1/health'') = 200 \<and>
   resp_body (metrics_serve promhttp (NewServer addr) ''/api/v1/health'') = Text ''OK'' \<and>
   metrics_serve promhttp (NewServer addr) ''/api/v1/metrics'' = promhttp"
  by (simp add: metrics_serve_def NewServer_def mux_route_def metrics_baseUrlV1_def metrics_paths_clean)

end
