(* ===== verification/Go_Duration.thy ===== *)
theory Go_Duration
  imports Go_Float Go_Strings
begin

text \<open>
  Go's \<^verbatim>\<open>time.ParseDuration\<close>, which reads the configured rotation interval: a sign and a sequence
  of decimal numbers with units, with its checks for overflow. The fraction is scaled in
  binary64, as in the standard library.
\<close>

definition duration_unit :: "string \<Rightarrow> nat option" where
  "duration_unit u =
     map_of [(''ns'', 1), (''us'', 10 ^ 3), ([CHR 0xC2, CHR 0xB5, CHR ''s''], 10 ^ 3),
             ([CHR 0xCE, CHR 0xBC, CHR ''s''], 10 ^ 3), (''ms'', 10 ^ 6), (''s'', 10 ^ 9),
             (''m'', 60 * 10 ^ 9), (''h'', 3600 * 10 ^ 9)] u"

definition leadingInt :: "string \<Rightarrow> (nat \<times> string) option" where
  "leadingInt s =
     (let ds = takeWhile is_digit s
      in if decimal ds > 2 ^ 63 then None else Some (decimal ds, dropWhile is_digit s))"

fun fraction_loop :: "string \<Rightarrow> nat \<Rightarrow> rat \<Rightarrow> nat \<times> rat" where
  "fraction_loop [] x scale = (x, scale)"
| "fraction_loop (c # cs) x scale =
     (if x > (2 ^ 63 - 1) div 10 then (x, scale)
      else let y = x * 10 + digit_value c
           in if y > 2 ^ 63 then (x, scale) else fraction_loop cs y (round64 (scale * 10)))"

definition leadingFraction :: "string \<Rightarrow> nat \<times> rat \<times> string" where
  "leadingFraction s =
     (case fraction_loop (takeWhile is_digit s) 0 1 of
        (x, scale) \<Rightarrow> (x, scale, dropWhile is_digit s))"

definition starts_number :: "char \<Rightarrow> bool" where
  "starts_number c \<longleftrightarrow> c = CHR ''.'' \<or> is_digit c"

text \<open>One number with its unit, in nanoseconds, and the rest of the string.\<close>

definition duration_term :: "string \<Rightarrow> (nat \<times> string) option" where
  "duration_term s =
     (if s = [] \<or> \<not> starts_number (hd s) then None
      else case leadingInt s of
             None \<Rightarrow> None
           | Some (v, s1) \<Rightarrow>
               let pre = (length s1 \<noteq> length s);
                   (f, scale, s2, post) =
                     (if s1 \<noteq> [] \<and> hd s1 = CHR ''.''
                      then (case leadingFraction (tl s1) of
                              (f, scale, r) \<Rightarrow> (f, scale, r, length r \<noteq> length (tl s1)))
                      else (0, 1, s1, False));
                   u = takeWhile (\<lambda>c. \<not> starts_number c) s2;
                   s3 = dropWhile (\<lambda>c. \<not> starts_number c) s2
               in if \<not> pre \<and> \<not> post then None
                  else if u = [] then None
                  else case duration_unit u of
                         None \<Rightarrow> None
                       | Some unit \<Rightarrow>
                           if v > 2 ^ 63 div unit then None
                           else
                             let v1 = v * unit +
                                   (if f > 0
                                    then nat \<lfloor>round64 (float64_of_int (int f) *
                                                round64 (float64_of_int (int unit) / scale))\<rfloor>
                                    else 0)
                             in if f > 0 \<and> v1 > 2 ^ 63 then None else Some (v1, s3))"

lemma length_dropWhile_less: "xs \<noteq> [] \<Longrightarrow> P (hd xs) \<Longrightarrow> length (dropWhile P xs) < length xs"
  by (cases xs) (auto simp: less_Suc_eq_le length_dropWhile_le)

lemma duration_term_shorter: "duration_term s = Some (v, r) \<Longrightarrow> length r < length s"
proof -
  assume a: "duration_term s = Some (v, r)"
  then obtain w s1 s2 where s1: "leadingInt s = Some (w, s1)"
    and r: "r = dropWhile (\<lambda>c. \<not> starts_number c) s2"
    and u: "takeWhile (\<lambda>c. \<not> starts_number c) s2 \<noteq> []"
    and s2: "s2 = s1 \<or> (s1 \<noteq> [] \<and> s2 = dropWhile is_digit (tl s1))"
    by (auto simp: duration_term_def Let_def leadingFraction_def split: if_splits option.splits prod.splits)
  have "length s1 \<le> length s"
    using s1 by (auto simp: leadingInt_def Let_def length_dropWhile_le split: if_splits)
  moreover have "length s2 \<le> length s1"
    using s2 length_dropWhile_le[of is_digit "tl s1"] by auto
  moreover have "length r < length s2"
    using u unfolding r by (intro length_dropWhile_less) (auto simp: takeWhile_eq_Nil_iff)
  ultimately show ?thesis by linarith
qed

function duration_loop :: "string \<Rightarrow> nat \<Rightarrow> nat option" where
  "duration_loop s d =
     (if s = [] then Some d
      else case duration_term s of
             None \<Rightarrow> None
           | Some (v, r) \<Rightarrow> if d + v > 2 ^ 63 then None else duration_loop r (d + v))"
  by pat_completeness auto
termination
  by (relation "measure (\<lambda>(s, d). length s)") (auto dest: duration_term_shorter)

declare duration_loop.simps [simp del]

definition ParseDuration :: "string \<Rightarrow> int option" where
  "ParseDuration s =
     (let neg = (s \<noteq> [] \<and> hd s = CHR ''-'');
          s1 = (if s \<noteq> [] \<and> (hd s = CHR ''-'' \<or> hd s = CHR ''+'') then tl s else s)
      in if s1 = ''0'' then Some 0
         else if s1 = [] then None
         else case duration_loop s1 0 of
                None \<Rightarrow> None
              | Some d \<Rightarrow> if neg then Some (- int d)
                          else if d > 2 ^ 63 - 1 then None else Some (int d))"

lemma duration_loop_bound: "duration_loop s d = Some r \<Longrightarrow> d \<le> 2 ^ 63 \<Longrightarrow> r \<le> 2 ^ 63"
proof (induction s d rule: duration_loop.induct)
  case (1 s d)
  show ?case
    using "1.prems"
    by (subst (asm) duration_loop.simps)
       (auto split: if_splits option.splits dest: "1.IH")
qed

lemma ParseDuration_range: "ParseDuration s = Some d \<Longrightarrow> in_int64 d"
  by (auto simp: ParseDuration_def Let_def in_int64_def min_int64_def max_int64_def
      split: if_splits option.splits dest!: duration_loop_bound)

end
