(* ===== verification/Config.thy ===== *)
theory Config
  imports Go_Duration
begin

text \<open>
  The configuration of \<^verbatim>\<open>internal/config/config.go\<close>: the records of the nested structs with their
  JSON field groups, the environment parsers, one function per \<^verbatim>\<open>apply...EnvVars\<close>, \<open>validate\<close> and
  \<open>Load\<close>. The process environment is an argument \<open>env\<close> (a partial map); reading a secret file is
  an argument \<open>read_file\<close>, the file system behind a path, \<open>None\<close> when the read fails.
\<close>

subsection \<open>Data\<close>

type_synonym environ = "string \<Rightarrow> string option"

record MQTTConfig =
  BrokerURL :: string
  ClientID :: string
  Topics :: "string list"
  QoS :: byte
  Username :: string
  Password :: string
  MQTT_TLSCAFile :: string

record EntropyPoolConfig =
  PoolMinBytes :: int
  PoolMaxBytes :: int
  ReadyMinBytes :: int
  HTTPAddr :: string
  RetryAfterSec :: int
  AllowPublic :: bool
  RateLimitRPS :: int
  RateLimitBurst :: int
  Pool_TLSEnabled :: bool
  Pool_TLSCertFile :: string
  Pool_TLSKeyFile :: string
  Pool_TLSCAFile :: string
  Pool_TLSClientAuth :: string

record MetricsConfig =
  Port :: int
  Metrics_Bind :: string
  Metrics_Enabled :: bool
  Metrics_TLSEnabled :: bool
  Metrics_TLSCertFile :: string
  Metrics_TLSKeyFile :: string
  Metrics_TLSCAFile :: string
  Metrics_TLSClientAuth :: string

record GRPCConfig =
  GRPC_Enabled :: bool
  GRPC_Bind :: string
  GRPC_TLSEnabled :: bool
  GRPC_TLSCertFile :: string
  GRPC_TLSKeyFile :: string
  GRPC_TLSCAFile :: string
  GRPC_TLSClientAuth :: string

record CloudForwarder =
  Cloud_Enabled :: bool
  ServerAddr :: string
  Cloud_TLSEnabled :: bool
  Cloud_TLSCAFile :: string
  Cloud_TLSCertFile :: string
  Cloud_TLSKeyFile :: string
  Cloud_TLSServerName :: string
  ConnectTimeout :: int
  ReconnectDelay :: int
  MaxReconnectSec :: int
  StreamRotateInterval :: int
  OAuth2Enabled :: bool
  OAuth2TokenURL :: string
  OAuth2ClientID :: string
  OAuth2ClientSecret :: string
  OAuth2Scopes :: string

record Config =
  cfg_MQTT :: MQTTConfig
  cfg_EntropyPool :: EntropyPoolConfig
  cfg_BatchSize :: int
  cfg_Metrics :: MetricsConfig
  cfg_Entropy_Bind :: string
  cfg_GRPC :: GRPCConfig
  cfg_CloudForwarder :: CloudForwarder
  cfg_Environment :: string

datatype config_error =
    QoSNotNumber | PasswordFile string | ClientSecretFile string | BadEnvironment
  | BrokerURLRequired | TopicsRequired
  | CertFileRequired string | KeyFileRequired string | BadClientAuth string string
  | CAFileRequired string | PublicWithoutTLS
  | ServerAddrRequired | CertKeyMismatch
  | OAuth2URLRequired | OAuth2ClientIDRequired | OAuth2SecretRequired

definition EnvironmentDevelopment :: string where "EnvironmentDevelopment = ''dev''"
definition EnvironmentProduction :: string where "EnvironmentProduction = ''prod''"
definition defaultBatchSize :: int where "defaultBatchSize = 1840"
definition minBatchSize :: int where "minBatchSize = 1840"
definition maxBatchSize :: int where "maxBatchSize = 184000"

definition IsProduction :: "Config \<Rightarrow> bool" where
  "IsProduction cfg \<longleftrightarrow> cfg_Environment cfg = EnvironmentProduction"

definition IsDevelopment :: "Config \<Rightarrow> bool" where
  "IsDevelopment cfg \<longleftrightarrow> cfg_Environment cfg = EnvironmentDevelopment"

definition Config_String :: "Config \<Rightarrow> string" where
  "Config_String cfg =
     ''Config{'' @ ''Environment='' @ cfg_Environment cfg @
     '', MQTT.BrokerURL='' @ BrokerURL (cfg_MQTT cfg) @
     '', MQTT.Topics='' @ Join CHR '','' (Topics (cfg_MQTT cfg)) @ ''}''"

subsection \<open>Environment values\<close>

definition Getenv :: "environ \<Rightarrow> string \<Rightarrow> string" where
  "Getenv env key = (case env key of None \<Rightarrow> [] | Some v \<Rightarrow> v)"

definition strip_comment :: "string \<Rightarrow> string" where
  "strip_comment cleaned =
     (if CHR 0x23 \<in> set cleaned then TrimSpace (takeWhile (\<lambda>c. c \<noteq> CHR 0x23) cleaned) else cleaned)"

definition cleanEnvValue :: "string \<Rightarrow> string" where
  "cleanEnvValue val = strip_comment (TrimSpace val)"

definition GetEnvDefault :: "environ \<Rightarrow> string \<Rightarrow> string \<Rightarrow> string" where
  "GetEnvDefault env key fallback =
     (case env key of
        None \<Rightarrow> fallback
      | Some v \<Rightarrow> let cleaned = cleanEnvValue v in if cleaned \<noteq> [] then cleaned else fallback)"

definition ParsePositiveEnvInt :: "environ \<Rightarrow> string \<Rightarrow> int \<Rightarrow> int" where
  "ParsePositiveEnvInt env key fallback =
     (case env key of
        None \<Rightarrow> fallback
      | Some v \<Rightarrow>
          let cleaned = cleanEnvValue v
          in if cleaned = [] then fallback
             else case Atoi cleaned of
                    Inl _ \<Rightarrow> fallback
                  | Inr parsed \<Rightarrow> if parsed \<le> 0 then fallback else parsed)"

definition is_letter :: "char \<Rightarrow> bool" where
  "is_letter ch \<longleftrightarrow>
     (let n = of_char ch :: nat in 97 \<le> n \<and> n \<le> 122 \<or> 65 \<le> n \<and> n \<le> 90)"

definition ParseDurationEnv :: "environ \<Rightarrow> string \<Rightarrow> int \<Rightarrow> int" where
  "ParseDurationEnv env key fallback =
     (case env key of
        None \<Rightarrow> fallback
      | Some v \<Rightarrow>
          let cleaned = cleanEnvValue v
          in if cleaned = [] then fallback
             else if \<not> list_ex is_letter cleaned then fallback
             else case ParseDuration cleaned of
                    None \<Rightarrow> fallback
                  | Some parsed \<Rightarrow> if parsed < 0 then fallback else parsed)"

definition ParseBoolEnv :: "environ \<Rightarrow> string \<Rightarrow> bool \<Rightarrow> bool" where
  "ParseBoolEnv env key fallback =
     (case env key of
        None \<Rightarrow> fallback
      | Some v \<Rightarrow>
          let cleaned = cleanEnvValue v
          in if cleaned = [] then fallback
             else let trimmed = ToLower cleaned
                  in if trimmed \<in> {''1'', ''true'', ''yes'', ''y'', ''on''} then True
                     else if trimmed \<in> {''0'', ''false'', ''no'', ''n'', ''off''} then False
                     else fallback)"

text \<open>The empty path is refused before the file system is asked.\<close>

definition readSecretFile :: "(string \<Rightarrow> string option) \<Rightarrow> string \<Rightarrow> string option" where
  "readSecretFile read_file path = (if TrimSpace path = [] then None else read_file path)"

subsection \<open>Applying the environment\<close>

definition env_or :: "environ \<Rightarrow> string \<Rightarrow> string \<Rightarrow> string" where
  "env_or env key old = (let v = Getenv env key in if v \<noteq> [] then v else old)"

definition mqtt_topics :: "environ \<Rightarrow> string list \<Rightarrow> string list" where
  "mqtt_topics env old =
     (let v = Getenv env ''MQTT_TOPICS''
      in if v \<noteq> [] then
           let cleanTopics = filter (\<lambda>t. t \<noteq> []) (map TrimSpace (Split CHR '','' v))
           in if cleanTopics \<noteq> [] then cleanTopics else old
         else old)"

definition mqtt_qos :: "environ \<Rightarrow> byte \<Rightarrow> config_error + byte" where
  "mqtt_qos env old =
     (let v = Getenv env ''MQTT_QOS''
      in if v \<noteq> [] then
           (case Atoi (strip_comment (TrimSpace v)) of
              Inl _ \<Rightarrow> Inl QoSNotNumber
            | Inr qos \<Rightarrow>
                let qos1 = (if qos < 0 then 0 else qos); qos2 = (if qos1 > 1 then 1 else qos1)
                in Inr (word_of_int qos2))
         else Inr old)"

definition mqtt_password ::
    "environ \<Rightarrow> (string \<Rightarrow> string option) \<Rightarrow> string \<Rightarrow> config_error + string" where
  "mqtt_password env read_file old =
     (let passwordFile = Getenv env ''MQTT_PASSWORD_FILE''
      in if passwordFile \<noteq> [] then
           (case readSecretFile read_file passwordFile of
              None \<Rightarrow> Inl (PasswordFile passwordFile)
            | Some bytes \<Rightarrow> Inr (TrimSpace bytes))
         else Inr old)"

definition applyMQTTEnvVars ::
    "environ \<Rightarrow> (string \<Rightarrow> string option) \<Rightarrow> Config \<Rightarrow> config_error + Config" where
  "applyMQTTEnvVars env read_file cfg =
     (let m = cfg_MQTT cfg
      in case mqtt_qos env (QoS m) of
           Inl err \<Rightarrow> Inl err
         | Inr qos \<Rightarrow>
             (case mqtt_password env read_file (env_or env ''MQTT_PASSWORD'' (Password m)) of
                Inl err \<Rightarrow> Inl err
              | Inr pw \<Rightarrow>
                  Inr (cfg\<lparr>cfg_MQTT :=
                    \<lparr>BrokerURL = env_or env ''MQTT_BROKER_URL'' (BrokerURL m),
                     ClientID = env_or env ''MQTT_CLIENT_ID'' (ClientID m),
                     Topics = mqtt_topics env (Topics m), QoS = qos,
                     Username = env_or env ''MQTT_USERNAME'' (Username m), Password = pw,
                     MQTT_TLSCAFile = env_or env ''MQTT_TLS_CA_FILE'' (MQTT_TLSCAFile m)\<rparr>\<rparr>)))"

text \<open>The client authentication mode of a server: lower case, \<^verbatim>\<open>none\<close> when unset.\<close>

definition client_auth_env :: "environ \<Rightarrow> string \<Rightarrow> string" where
  "client_auth_env env key =
     (let v = Getenv env key in if v \<noteq> [] then ToLower (TrimSpace v) else ''none'')"

definition applyEntropyPoolEnvVars :: "environ \<Rightarrow> Config \<Rightarrow> Config" where
  "applyEntropyPoolEnvVars env cfg =
     (let p = cfg_EntropyPool cfg;
          minBytes = ParsePositiveEnvInt env ''ENTROPY_POOL_MIN_BYTES'' (PoolMinBytes p);
          maxBytes = ParsePositiveEnvInt env ''ENTROPY_POOL_MAX_BYTES'' (PoolMaxBytes p)
      in cfg\<lparr>cfg_EntropyPool :=
           \<lparr>PoolMinBytes = minBytes,
            PoolMaxBytes = (if maxBytes < minBytes then minBytes else maxBytes),
            ReadyMinBytes = ParsePositiveEnvInt env ''ENTROPY_READY_MIN_BYTES'' (ReadyMinBytes p),
            HTTPAddr = GetEnvDefault env ''ENTROPY_HTTP_ADDR'' (HTTPAddr p),
            RetryAfterSec = ParsePositiveEnvInt env ''ENTROPY_RETRY_AFTER_SEC'' (RetryAfterSec p),
            AllowPublic = ParseBoolEnv env ''ALLOW_PUBLIC_HTTP'' (AllowPublic p),
            RateLimitRPS = ParsePositiveEnvInt env ''ENTROPY_RATE_LIMIT_RPS'' 25,
            RateLimitBurst = ParsePositiveEnvInt env ''ENTROPY_RATE_LIMIT_BURST'' 25,
            Pool_TLSEnabled = ParseBoolEnv env ''ENTROPY_TLS_ENABLED'' (Pool_TLSEnabled p),
            Pool_TLSCertFile = GetEnvDefault env ''ENTROPY_TLS_CERT_FILE'' (Getenv env ''TLS_CERT_FILE''),
            Pool_TLSKeyFile = GetEnvDefault env ''ENTROPY_TLS_KEY_FILE'' (Getenv env ''TLS_KEY_FILE''),
            Pool_TLSCAFile = GetEnvDefault env ''ENTROPY_TLS_CA_FILE'' (Getenv env ''TLS_CA_FILE''),
            Pool_TLSClientAuth = client_auth_env env ''ENTROPY_TLS_CLIENT_AUTH''\<rparr>\<rparr>)"

definition applyCollectorEnvVars :: "environ \<Rightarrow> Config \<Rightarrow> Config" where
  "applyCollectorEnvVars env cfg =
     (let v = Getenv env ''COLLECTOR_BATCH_SIZE''
      in if v \<noteq> [] then
           (case Atoi (TrimSpace v) of
              Inl _ \<Rightarrow> cfg\<lparr>cfg_BatchSize := defaultBatchSize\<rparr>
            | Inr parsed \<Rightarrow>
                if parsed < minBatchSize then cfg\<lparr>cfg_BatchSize := minBatchSize\<rparr>
                else if parsed > maxBatchSize then cfg\<lparr>cfg_BatchSize := maxBatchSize\<rparr>
                else cfg\<lparr>cfg_BatchSize := parsed\<rparr>)
         else cfg)"

definition applyMetricsEnvVars :: "environ \<Rightarrow> Config \<Rightarrow> Config" where
  "applyMetricsEnvVars env cfg =
     (let m = cfg_Metrics cfg
      in cfg\<lparr>cfg_Metrics :=
           \<lparr>Port = ParsePositiveEnvInt env ''METRICS_PORT'' (Port m),
            Metrics_Bind = GetEnvDefault env ''METRICS_BIND'' (Metrics_Bind m),
            Metrics_Enabled = ParseBoolEnv env ''METRICS_ENABLED'' (Metrics_Enabled m),
            Metrics_TLSEnabled = ParseBoolEnv env ''METRICS_TLS_ENABLED'' (Metrics_TLSEnabled m),
            Metrics_TLSCertFile = GetEnvDefault env ''METRICS_TLS_CERT_FILE'' (Getenv env ''TLS_CERT_FILE''),
            Metrics_TLSKeyFile = GetEnvDefault env ''METRICS_TLS_KEY_FILE'' (Getenv env ''TLS_KEY_FILE''),
            Metrics_TLSCAFile = GetEnvDefault env ''METRICS_TLS_CA_FILE'' (Getenv env ''TLS_CA_FILE''),
            Metrics_TLSClientAuth = client_auth_env env ''METRICS_TLS_CLIENT_AUTH''\<rparr>\<rparr>)"

definition applyEntropyEnvVars :: "environ \<Rightarrow> Config \<Rightarrow> Config" where
  "applyEntropyEnvVars env cfg =
     cfg\<lparr>cfg_Entropy_Bind := GetEnvDefault env ''ENTROPY_BIND'' (cfg_Entropy_Bind cfg)\<rparr>"

definition applyGRPCEnvVars :: "environ \<Rightarrow> Config \<Rightarrow> Config" where
  "applyGRPCEnvVars env cfg =
     (let g = cfg_GRPC cfg;
          cert = Getenv env ''GRPC_TLS_CERT_FILE'';
          key = Getenv env ''GRPC_TLS_KEY_FILE'';
          ca = Getenv env ''GRPC_TLS_CA_FILE''
      in cfg\<lparr>cfg_GRPC :=
           \<lparr>GRPC_Enabled = ParseBoolEnv env ''GRPC_ENABLED'' (GRPC_Enabled g),
            GRPC_Bind = GetEnvDefault env ''GRPC_BIND'' (GRPC_Bind g),
            GRPC_TLSEnabled = ParseBoolEnv env ''GRPC_TLS_ENABLED'' (GRPC_TLSEnabled g),
            GRPC_TLSCertFile = (if cert \<noteq> [] then cert else GRPC_TLSCertFile g),
            GRPC_TLSKeyFile = (if key \<noteq> [] then key else GRPC_TLSKeyFile g),
            GRPC_TLSCAFile = (if ca \<noteq> [] then ca else GRPC_TLSCAFile g),
            GRPC_TLSClientAuth = client_auth_env env ''GRPC_TLS_CLIENT_AUTH''\<rparr>\<rparr>)"

definition cloud_settings :: "environ \<Rightarrow> CloudForwarder \<Rightarrow> string \<Rightarrow> CloudForwarder" where
  "cloud_settings env c secret =
           \<lparr>Cloud_Enabled = ParseBoolEnv env ''CLOUD_FORWARDER_ENABLED'' (Cloud_Enabled c),
            ServerAddr = GetEnvDefault env ''CLOUD_FORWARDER_SERVER_ADDR'' (ServerAddr c),
            Cloud_TLSEnabled = ParseBoolEnv env ''CLOUD_FORWARDER_TLS_ENABLED'' (Cloud_TLSEnabled c),
            Cloud_TLSCAFile = GetEnvDefault env ''CLOUD_FORWARDER_TLS_CA_FILE'' (Getenv env ''TLS_CA_FILE''),
            Cloud_TLSCertFile = GetEnvDefault env ''CLOUD_FORWARDER_TLS_CERT_FILE'' (Getenv env ''TLS_CERT_FILE''),
            Cloud_TLSKeyFile = GetEnvDefault env ''CLOUD_FORWARDER_TLS_KEY_FILE'' (Getenv env ''TLS_KEY_FILE''),
            Cloud_TLSServerName = env_or env ''CLOUD_FORWARDER_TLS_SERVER_NAME'' (Cloud_TLSServerName c),
            ConnectTimeout = ParsePositiveEnvInt env ''CLOUD_FORWARDER_CONNECT_TIMEOUT'' (ConnectTimeout c),
            ReconnectDelay = ParsePositiveEnvInt env ''CLOUD_FORWARDER_RECONNECT_DELAY'' (ReconnectDelay c),
            MaxReconnectSec = ParsePositiveEnvInt env ''CLOUD_FORWARDER_MAX_RECONNECT'' (MaxReconnectSec c),
            StreamRotateInterval = ParseDurationEnv env ''CLOUD_FORWARDER_STREAM_ROTATE_INTERVAL'' (StreamRotateInterval c),
            OAuth2Enabled = ParseBoolEnv env ''CLOUD_FORWARDER_OAUTH2_ENABLED'' (OAuth2Enabled c),
            OAuth2TokenURL = env_or env ''CLOUD_FORWARDER_OAUTH2_TOKEN_URL'' (OAuth2TokenURL c),
            OAuth2ClientID = env_or env ''CLOUD_FORWARDER_OAUTH2_CLIENT_ID'' (OAuth2ClientID c),
            OAuth2ClientSecret = secret,
            OAuth2Scopes = env_or env ''CLOUD_FORWARDER_OAUTH2_SCOPES'' (OAuth2Scopes c)\<rparr>"

definition applyCloudForwarderEnvVars ::
    "environ \<Rightarrow> (string \<Rightarrow> string option) \<Rightarrow> Config \<Rightarrow> config_error + Config" where
  "applyCloudForwarderEnvVars env read_file cfg =
     (let c = cfg_CloudForwarder cfg;
          secret = env_or env ''CLOUD_FORWARDER_OAUTH2_CLIENT_SECRET'' (OAuth2ClientSecret c);
          secretFile = Getenv env ''CLOUD_FORWARDER_OAUTH2_CLIENT_SECRET_FILE''
      in if secretFile \<noteq> [] then
           (case readSecretFile read_file secretFile of
              None \<Rightarrow> Inl (ClientSecretFile secretFile)
            | Some bytes \<Rightarrow> Inr (cfg\<lparr>cfg_CloudForwarder := cloud_settings env c (TrimSpace bytes)\<rparr>))
         else Inr (cfg\<lparr>cfg_CloudForwarder := cloud_settings env c secret\<rparr>))"

definition applyEnvironmentEnvVars :: "environ \<Rightarrow> Config \<Rightarrow> config_error + Config" where
  "applyEnvironmentEnvVars env cfg =
     (let v = Getenv env ''ENVIRONMENT''
      in if v \<noteq> [] then
           let e = ToLower (TrimSpace v)
           in if e \<in> {''dev'', ''development''} then Inr (cfg\<lparr>cfg_Environment := EnvironmentDevelopment\<rparr>)
              else if e \<in> {''prod'', ''production''} then Inr (cfg\<lparr>cfg_Environment := EnvironmentProduction\<rparr>)
              else Inl BadEnvironment
         else Inr cfg)"

subsection \<open>Validation\<close>

definition valid_client_auth :: "string \<Rightarrow> bool" where
  "valid_client_auth mode \<longleftrightarrow> mode \<in> {''none'', ''request'', ''require''}"

text \<open>The block of checks that the three TLS servers have in common.\<close>

definition validate_tls :: "string \<Rightarrow> string \<Rightarrow> string \<Rightarrow> string \<Rightarrow> string \<Rightarrow> config_error option" where
  "validate_tls component cert key ca clientAuth =
     (if cert = [] then Some (CertFileRequired component)
      else if key = [] then Some (KeyFileRequired component)
      else if \<not> valid_client_auth clientAuth then Some (BadClientAuth component clientAuth)
      else if clientAuth = ''require'' \<and> ca = [] then Some (CAFileRequired component)
      else None)"

fun first_error :: "config_error option list \<Rightarrow> config_error option" where
  "first_error [] = None"
| "first_error (Some e # _) = Some e"
| "first_error (None # es) = first_error es"

definition validate :: "Config \<Rightarrow> config_error option" where
  "validate cfg =
     (let p = cfg_EntropyPool cfg; m = cfg_Metrics cfg; g = cfg_GRPC cfg; c = cfg_CloudForwarder cfg
      in first_error
        [if BrokerURL (cfg_MQTT cfg) = [] then Some BrokerURLRequired else None,
         if Topics (cfg_MQTT cfg) = [] then Some TopicsRequired else None,
         if cfg_Environment cfg \<noteq> EnvironmentDevelopment \<and> cfg_Environment cfg \<noteq> EnvironmentProduction
         then Some BadEnvironment else None,
         if Pool_TLSEnabled p
         then validate_tls ''ENTROPY'' (Pool_TLSCertFile p) (Pool_TLSKeyFile p) (Pool_TLSCAFile p)
                (Pool_TLSClientAuth p) else None,
         if AllowPublic p \<and> \<not> Pool_TLSEnabled p \<and> IsProduction cfg then Some PublicWithoutTLS else None,
         if Metrics_TLSEnabled m
         then validate_tls ''METRICS'' (Metrics_TLSCertFile m) (Metrics_TLSKeyFile m)
                (Metrics_TLSCAFile m) (Metrics_TLSClientAuth m) else None,
         if GRPC_Enabled g \<and> GRPC_TLSEnabled g
         then validate_tls ''GRPC'' (GRPC_TLSCertFile g) (GRPC_TLSKeyFile g) (GRPC_TLSCAFile g)
                (GRPC_TLSClientAuth g) else None,
         if Cloud_Enabled c then
           (if ServerAddr c = [] then Some ServerAddrRequired
            else if Cloud_TLSEnabled c \<and> Cloud_TLSCAFile c = [] then Some (CAFileRequired ''CLOUD_FORWARDER'')
            else if Cloud_TLSEnabled c \<and> (Cloud_TLSCertFile c \<noteq> []) \<noteq> (Cloud_TLSKeyFile c \<noteq> [])
            then Some CertKeyMismatch
            else if OAuth2Enabled c \<and> OAuth2TokenURL c = [] then Some OAuth2URLRequired
            else if OAuth2Enabled c \<and> OAuth2ClientID c = [] then Some OAuth2ClientIDRequired
            else if OAuth2Enabled c \<and> OAuth2ClientSecret c = [] then Some OAuth2SecretRequired
            else None)
         else None])"

subsection \<open>Load\<close>

definition default_config :: Config where
  "default_config =
     \<lparr>cfg_MQTT =
        \<lparr>BrokerURL = ''tcp://127.0.0.1:1883'', ClientID = [], Topics = [''timestamps/channel/#''],
         QoS = 0, Username = [], Password = [], MQTT_TLSCAFile = []\<rparr>,
      cfg_EntropyPool =
        \<lparr>PoolMinBytes = 512, PoolMaxBytes = 16384, ReadyMinBytes = 1024,
         HTTPAddr = ''127.0.0.1:9797'', RetryAfterSec = 1, AllowPublic = False,
         RateLimitRPS = 0, RateLimitBurst = 0, Pool_TLSEnabled = False, Pool_TLSCertFile = [],
         Pool_TLSKeyFile = [], Pool_TLSCAFile = [], Pool_TLSClientAuth = []\<rparr>,
      cfg_BatchSize = defaultBatchSize,
      cfg_Metrics =
        \<lparr>Port = 8000, Metrics_Bind = ''127.0.0.1:8080'', Metrics_Enabled = True,
         Metrics_TLSEnabled = False, Metrics_TLSCertFile = [], Metrics_TLSKeyFile = [],
         Metrics_TLSCAFile = [], Metrics_TLSClientAuth = []\<rparr>,
      cfg_Entropy_Bind = ''127.0.0.1:8081'',
      cfg_GRPC =
        \<lparr>GRPC_Enabled = False, GRPC_Bind = ''127.0.0.1:9090'', GRPC_TLSEnabled = False,
         GRPC_TLSCertFile = [], GRPC_TLSKeyFile = [], GRPC_TLSCAFile = [], GRPC_TLSClientAuth = []\<rparr>,
      cfg_CloudForwarder =
        \<lparr>Cloud_Enabled = False, ServerAddr = [], Cloud_TLSEnabled = False, Cloud_TLSCAFile = [],
         Cloud_TLSCertFile = [], Cloud_TLSKeyFile = [], Cloud_TLSServerName = [],
         ConnectTimeout = 10, ReconnectDelay = 5, MaxReconnectSec = 60, StreamRotateInterval = 0,
         OAuth2Enabled = False, OAuth2TokenURL = [], OAuth2ClientID = [], OAuth2ClientSecret = [],
         OAuth2Scopes = []\<rparr>,
      cfg_Environment = EnvironmentDevelopment\<rparr>"

definition Load :: "environ \<Rightarrow> (string \<Rightarrow> string option) \<Rightarrow> config_error + Config" where
  "Load env read_file =
     (case applyMQTTEnvVars env read_file default_config of
        Inl err \<Rightarrow> Inl err
      | Inr c1 \<Rightarrow>
          let c2 = applyEntropyPoolEnvVars env c1;
              c3 = applyCollectorEnvVars env c2;
              c4 = applyMetricsEnvVars env c3;
              c5 = applyEntropyEnvVars env c4;
              c6 = applyGRPCEnvVars env c5
          in case applyCloudForwarderEnvVars env read_file c6 of
               Inl err \<Rightarrow> Inl err
             | Inr c7 \<Rightarrow>
                 (case applyEnvironmentEnvVars env c7 of
                    Inl err \<Rightarrow> Inl err
                  | Inr c8 \<Rightarrow> (case validate c8 of Some err \<Rightarrow> Inl err | None \<Rightarrow> Inr c8)))"

subsection \<open>Values\<close>

lemma takeWhile_no_hash: "CHR 0x23 \<notin> set (takeWhile (\<lambda>c. c \<noteq> CHR 0x23) s)"
  by (auto dest: set_takeWhileD)

lemma set_TrimSpace: "set (TrimSpace s) \<subseteq> set s"
  unfolding TrimSpace_def
  using set_mono_suffix[OF trim_left_suffix[of s]] set_mono_prefix[OF trim_right_prefix[of "trim_left s"]]
  by blast

text \<open>A cleaned value carries no comment and no white space around it.\<close>

lemma cleanEnvValue_no_hash: "CHR 0x23 \<notin> set (cleanEnvValue v)"
  using set_TrimSpace[of "takeWhile (\<lambda>c. c \<noteq> CHR 0x23) (TrimSpace v)"]
    takeWhile_no_hash[of "TrimSpace v"]
  by (auto simp: cleanEnvValue_def strip_comment_def)

lemma cleanEnvValue_trimmed: "TrimSpace (cleanEnvValue v) = cleanEnvValue v"
  by (simp add: cleanEnvValue_def strip_comment_def TrimSpace_idem)

lemma cleanEnvValue_idem: "cleanEnvValue (cleanEnvValue v) = cleanEnvValue v"
  using cleanEnvValue_no_hash[of v] cleanEnvValue_trimmed[of v]
  by (simp add: cleanEnvValue_def[of "cleanEnvValue v"] strip_comment_def)

lemma cleanEnvValue_digits:
  assumes "ds \<noteq> []" "list_all is_digit ds"
  shows "cleanEnvValue ds = ds"
proof -
  have "CHR 0x23 \<notin> set ds" using assms(2) by (auto simp: list_all_iff is_digit_def)
  then show ?thesis
    using TrimSpace_digits[OF assms] by (simp add: cleanEnvValue_def strip_comment_def)
qed

lemma ParsePositiveEnvInt_printed:
  assumes "env key = Some (Itoa n)" "0 < n" "n \<le> max_int64"
  shows "ParsePositiveEnvInt env key fb = n"
proof -
  have i: "Itoa n = utoa (nat n)" using assms(2) by (simp add: Itoa_def)
  have "cleanEnvValue (Itoa n) = Itoa n"
    unfolding i by (intro cleanEnvValue_digits utoa_nonempty utoa_digits)
  moreover have "Atoi (Itoa n) = Inr n"
    using assms by (intro Atoi_Itoa) (simp add: in_int64_def min_int64_def)
  ultimately show ?thesis
    using assms utoa_nonempty[of "nat n"] by (simp add: ParsePositiveEnvInt_def i)
qed

lemma ParsePositiveEnvInt_range:
  "0 < fb \<Longrightarrow> fb \<le> max_int64 \<Longrightarrow>
     0 < ParsePositiveEnvInt env key fb \<and> ParsePositiveEnvInt env key fb \<le> max_int64"
  using Atoi_range by (fastforce simp: ParsePositiveEnvInt_def Let_def in_int64_def
      split: option.split sum.split)

lemma ParsePositiveEnvInt_pos: "0 < fb \<Longrightarrow> 0 < ParsePositiveEnvInt env key fb"
  by (simp add: ParsePositiveEnvInt_def Let_def split: option.split sum.split)

lemma ParseDurationEnv_range:
  "0 \<le> fb \<Longrightarrow> in_int64 fb \<Longrightarrow>
     0 \<le> ParseDurationEnv env key fb \<and> in_int64 (ParseDurationEnv env key fb)"
  by (auto simp: ParseDurationEnv_def Let_def ParseDuration_range split: option.split)

subsection \<open>What a loaded configuration satisfies\<close>

definition tls_valid :: "string \<Rightarrow> string \<Rightarrow> string \<Rightarrow> string \<Rightarrow> bool" where
  "tls_valid cert key ca clientAuth \<longleftrightarrow>
     cert \<noteq> [] \<and> key \<noteq> [] \<and> valid_client_auth clientAuth \<and> (clientAuth = ''require'' \<longrightarrow> ca \<noteq> [])"

lemma validate_tls_None: "validate_tls name cert key ca auth = None \<longleftrightarrow> tls_valid cert key ca auth"
  by (auto simp: validate_tls_def tls_valid_def)

lemma first_error_None: "first_error es = None \<longleftrightarrow> list_all (\<lambda>e. e = None) es"
  by (induction es rule: first_error.induct) auto

definition config_valid :: "Config \<Rightarrow> bool" where
  "config_valid cfg \<longleftrightarrow>
     BrokerURL (cfg_MQTT cfg) \<noteq> [] \<and> Topics (cfg_MQTT cfg) \<noteq> [] \<and>
     (IsDevelopment cfg \<or> IsProduction cfg) \<and>
     (let p = cfg_EntropyPool cfg in
       (Pool_TLSEnabled p \<longrightarrow> tls_valid (Pool_TLSCertFile p) (Pool_TLSKeyFile p) (Pool_TLSCAFile p)
          (Pool_TLSClientAuth p)) \<and>
       (AllowPublic p \<and> IsProduction cfg \<longrightarrow> Pool_TLSEnabled p)) \<and>
     (let m = cfg_Metrics cfg in
       Metrics_TLSEnabled m \<longrightarrow> tls_valid (Metrics_TLSCertFile m) (Metrics_TLSKeyFile m)
         (Metrics_TLSCAFile m) (Metrics_TLSClientAuth m)) \<and>
     (let g = cfg_GRPC cfg in
       GRPC_Enabled g \<and> GRPC_TLSEnabled g \<longrightarrow> tls_valid (GRPC_TLSCertFile g) (GRPC_TLSKeyFile g)
         (GRPC_TLSCAFile g) (GRPC_TLSClientAuth g)) \<and>
     (let c = cfg_CloudForwarder cfg in
       Cloud_Enabled c \<longrightarrow> ServerAddr c \<noteq> [] \<and>
         (Cloud_TLSEnabled c \<longrightarrow> Cloud_TLSCAFile c \<noteq> [] \<and>
            (Cloud_TLSCertFile c \<noteq> [] \<longleftrightarrow> Cloud_TLSKeyFile c \<noteq> [])) \<and>
         (OAuth2Enabled c \<longrightarrow> OAuth2TokenURL c \<noteq> [] \<and> OAuth2ClientID c \<noteq> [] \<and>
            OAuth2ClientSecret c \<noteq> []))"

lemma validate_None: "validate cfg = None \<longleftrightarrow> config_valid cfg"
  unfolding validate_def first_error_None Let_def config_valid_def
  by (auto simp: validate_tls_None IsDevelopment_def IsProduction_def)

definition config_ranges :: "Config \<Rightarrow> bool" where
  "config_ranges cfg \<longleftrightarrow>
     minBatchSize \<le> cfg_BatchSize cfg \<and> cfg_BatchSize cfg \<le> maxBatchSize \<and>
     QoS (cfg_MQTT cfg) \<in> {0, 1} \<and>
     (let p = cfg_EntropyPool cfg in
       0 < PoolMinBytes p \<and> PoolMinBytes p \<le> PoolMaxBytes p \<and> PoolMaxBytes p \<le> max_int64 \<and>
       0 < ReadyMinBytes p \<and> 0 < RetryAfterSec p \<and> 0 < RateLimitRPS p \<and> 0 < RateLimitBurst p) \<and>
     0 < Port (cfg_Metrics cfg) \<and>
     (let c = cfg_CloudForwarder cfg in
       0 < ConnectTimeout c \<and> 0 < ReconnectDelay c \<and> 0 < MaxReconnectSec c \<and>
       0 \<le> StreamRotateInterval c \<and> in_int64 (StreamRotateInterval c))"

lemmas apply_defs =
  applyEntropyPoolEnvVars_def applyCollectorEnvVars_def applyMetricsEnvVars_def
  applyEntropyEnvVars_def applyGRPCEnvVars_def

lemma qos_clamp:
  fixes n :: int
  defines "c \<equiv> (let q = (if n < 0 then 0 else n) in if q > 1 then 1 else q)"
  shows "c = 0 \<or> c = 1"
  unfolding c_def Let_def by (cases "n < 0"; cases "1 < n") auto

lemma mqtt_qos_range:
  assumes "mqtt_qos env old = Inr q" "old \<in> {0, 1}"
  shows "q \<in> {0, 1}"
proof (cases "Getenv env ''MQTT_QOS'' = []")
  case False
  then obtain n where "q = word_of_int (let q = (if n < 0 then 0 else n) in if q > 1 then 1 else q)"
    using assms(1) unfolding mqtt_qos_def Let_def by (auto split: sum.splits)
  with qos_clamp[of n] show ?thesis by auto
qed (use assms in \<open>auto simp: mqtt_qos_def\<close>)

lemma applyMQTT_frame:
  assumes "applyMQTTEnvVars env rf cfg = Inr cfg'"
  shows "\<exists>m. cfg' = cfg\<lparr>cfg_MQTT := m\<rparr> \<and> (QoS (cfg_MQTT cfg) \<in> {0, 1} \<longrightarrow> QoS m \<in> {0, 1}) \<and>
    Topics m = mqtt_topics env (Topics (cfg_MQTT cfg))"
proof -
  obtain qos pw where q: "mqtt_qos env (QoS (cfg_MQTT cfg)) = Inr qos"
    and cfg': "cfg' = cfg\<lparr>cfg_MQTT :=
                    \<lparr>BrokerURL = env_or env ''MQTT_BROKER_URL'' (BrokerURL (cfg_MQTT cfg)),
                     ClientID = env_or env ''MQTT_CLIENT_ID'' (ClientID (cfg_MQTT cfg)),
                     Topics = mqtt_topics env (Topics (cfg_MQTT cfg)), QoS = qos,
                     Username = env_or env ''MQTT_USERNAME'' (Username (cfg_MQTT cfg)), Password = pw,
                     MQTT_TLSCAFile = env_or env ''MQTT_TLS_CA_FILE'' (MQTT_TLSCAFile (cfg_MQTT cfg))\<rparr>\<rparr>"
    using assms by (auto simp: applyMQTTEnvVars_def Let_def split: sum.splits)
  show ?thesis
    unfolding cfg' using mqtt_qos_range[OF q] by (intro exI conjI) (rule refl, simp_all)
qed

lemma applyCloud_frame:
  "applyCloudForwarderEnvVars env rf cfg = Inr cfg' \<Longrightarrow>
     \<exists>sec. cfg' = cfg\<lparr>cfg_CloudForwarder := cloud_settings env (cfg_CloudForwarder cfg) sec\<rparr>"
  by (auto simp: applyCloudForwarderEnvVars_def Let_def split: if_splits option.splits)

lemma applyEnvironment_frame:
  "applyEnvironmentEnvVars env cfg = Inr cfg' \<Longrightarrow> \<exists>e. cfg' = cfg\<lparr>cfg_Environment := e\<rparr>"
  by (auto simp: applyEnvironmentEnvVars_def Let_def split: if_splits intro: exI[of _ "cfg_Environment cfg"])

lemma applyCollector_range:
  assumes "minBatchSize \<le> cfg_BatchSize cfg" "cfg_BatchSize cfg \<le> maxBatchSize"
  shows "\<exists>b. applyCollectorEnvVars env cfg = cfg\<lparr>cfg_BatchSize := b\<rparr> \<and> minBatchSize \<le> b \<and> b \<le> maxBatchSize"
  using assms
  by (auto simp: applyCollectorEnvVars_def Let_def minBatchSize_def maxBatchSize_def defaultBatchSize_def
      split: sum.split intro: exI[of _ "cfg_BatchSize cfg"])

lemma Load_steps:
  assumes "Load env rf = Inr cfg"
  obtains c1 c7 where "applyMQTTEnvVars env rf default_config = Inr c1"
    and "applyCloudForwarderEnvVars env rf
      (applyGRPCEnvVars env (applyEntropyEnvVars env (applyMetricsEnvVars env
        (applyCollectorEnvVars env (applyEntropyPoolEnvVars env c1))))) = Inr c7"
    and "applyEnvironmentEnvVars env c7 = Inr cfg" and "validate cfg = None"
  using assms by (auto simp: Load_def Let_def split: sum.splits option.splits)

lemma Load_valid: "Load env rf = Inr cfg \<Longrightarrow> config_valid cfg"
  by (erule Load_steps) (simp add: validate_None)

lemma Load_ranges:
  assumes "Load env rf = Inr cfg"
  shows "config_ranges cfg"
proof -
  obtain c1 c7 where
    s1: "applyMQTTEnvVars env rf default_config = Inr c1" and
    s7: "applyCloudForwarderEnvVars env rf
      (applyGRPCEnvVars env (applyEntropyEnvVars env (applyMetricsEnvVars env
        (applyCollectorEnvVars env (applyEntropyPoolEnvVars env c1))))) = Inr c7" and
    s8: "applyEnvironmentEnvVars env c7 = Inr cfg"
    using assms by (rule Load_steps)
  let ?d = "default_config"
  obtain m where m: "c1 = ?d\<lparr>cfg_MQTT := m\<rparr>" "QoS m \<in> {0, 1}"
    using applyMQTT_frame[OF s1] by (auto simp: default_config_def)
  define c2 where "c2 = applyEntropyPoolEnvVars env c1"
  have "minBatchSize \<le> cfg_BatchSize c2" "cfg_BatchSize c2 \<le> maxBatchSize"
    by (simp_all add: c2_def m applyEntropyPoolEnvVars_def Let_def default_config_def
        minBatchSize_def maxBatchSize_def defaultBatchSize_def)
  from applyCollector_range[OF this, of env] obtain b where
    b: "applyCollectorEnvVars env c2 = c2\<lparr>cfg_BatchSize := b\<rparr>" "minBatchSize \<le> b" "b \<le> maxBatchSize"
    by blast
  obtain e where e: "cfg = c7\<lparr>cfg_Environment := e\<rparr>" using applyEnvironment_frame[OF s8] by blast
  obtain sec where c: "c7 = (let c6 = applyGRPCEnvVars env (applyEntropyEnvVars env
      (applyMetricsEnvVars env (c2\<lparr>cfg_BatchSize := b\<rparr>)))
    in c6\<lparr>cfg_CloudForwarder := cloud_settings env (cfg_CloudForwarder c6) sec\<rparr>)"
    using applyCloud_frame[OF s7[folded c2_def, unfolded b(1)]] by (auto simp: Let_def)
  have pos: "0 < fb \<Longrightarrow> 0 < ParsePositiveEnvInt env k fb" for k fb by (rule ParsePositiveEnvInt_pos)
  have "max_int64 \<ge> 16384" "max_int64 \<ge> 512" by (simp_all add: max_int64_def)
  note mx = ParsePositiveEnvInt_range[of 16384 env] ParsePositiveEnvInt_range[of 512 env]
  have dur: "0 \<le> ParseDurationEnv env k 0 \<and> in_int64 (ParseDurationEnv env k 0)" for k
    by (rule ParseDurationEnv_range) (simp_all add: in_int64_def min_int64_def max_int64_def)
  have pool: "cfg_EntropyPool cfg = cfg_EntropyPool c2" "cfg_BatchSize cfg = b"
    "cfg_MQTT cfg = m" "cfg_Metrics cfg = cfg_Metrics (applyMetricsEnvVars env ?d)"
    "cfg_CloudForwarder cfg = cloud_settings env (cfg_CloudForwarder ?d) sec"
    by (simp_all add: e c Let_def c2_def m(1) apply_defs applyCollectorEnvVars_def)
  have p: "0 < PoolMinBytes (cfg_EntropyPool c2) \<and>
      PoolMinBytes (cfg_EntropyPool c2) \<le> PoolMaxBytes (cfg_EntropyPool c2) \<and>
      PoolMaxBytes (cfg_EntropyPool c2) \<le> max_int64 \<and>
      0 < ReadyMinBytes (cfg_EntropyPool c2) \<and> 0 < RetryAfterSec (cfg_EntropyPool c2) \<and>
      0 < RateLimitRPS (cfg_EntropyPool c2) \<and> 0 < RateLimitBurst (cfg_EntropyPool c2)"
    using mx \<open>max_int64 \<ge> 16384\<close> \<open>max_int64 \<ge> 512\<close>
    by (auto simp: c2_def m(1) applyEntropyPoolEnvVars_def Let_def default_config_def pos)
  have q: "0 < Port (cfg_Metrics (applyMetricsEnvVars env ?d))"
    by (simp add: applyMetricsEnvVars_def Let_def default_config_def pos)
  have r: "0 < ConnectTimeout (cloud_settings env (cfg_CloudForwarder ?d) sec) \<and>
      0 < ReconnectDelay (cloud_settings env (cfg_CloudForwarder ?d) sec) \<and>
      0 < MaxReconnectSec (cloud_settings env (cfg_CloudForwarder ?d) sec) \<and>
      0 \<le> StreamRotateInterval (cloud_settings env (cfg_CloudForwarder ?d) sec) \<and>
      in_int64 (StreamRotateInterval (cloud_settings env (cfg_CloudForwarder ?d) sec))"
    using dur by (simp add: cloud_settings_def default_config_def pos)
  show ?thesis
    using b(2,3) m(2) p q r by (simp add: config_ranges_def Let_def pool)
qed

subsection \<open>Properties\<close>

text \<open>C27: Every configuration that \<open>Load\<close> accepts is safe to run with, whatever the environment says:
  there is a broker and a topic, every enabled TLS listener (entropy, metrics and gRPC) has a
  certificate, a key and a known client-authentication mode (with a CA where it requires
  certificates), a public entropy endpoint in production uses TLS, and an enabled forwarder has its server address, its CA, a
  complete or absent client pair and complete OAuth2 credentials.\<close>

theorem loaded_config_is_safe:
  assumes "Load env read_file = Inr cfg"
  shows "BrokerURL (cfg_MQTT cfg) \<noteq> [] \<and> Topics (cfg_MQTT cfg) \<noteq> [] \<and>
    cfg_Environment cfg \<in> {''dev'', ''prod''} \<and>
    (Pool_TLSEnabled (cfg_EntropyPool cfg) \<longrightarrow>
       tls_valid (Pool_TLSCertFile (cfg_EntropyPool cfg)) (Pool_TLSKeyFile (cfg_EntropyPool cfg))
         (Pool_TLSCAFile (cfg_EntropyPool cfg)) (Pool_TLSClientAuth (cfg_EntropyPool cfg))) \<and>
    (AllowPublic (cfg_EntropyPool cfg) \<and> cfg_Environment cfg = ''prod'' \<longrightarrow>
       Pool_TLSEnabled (cfg_EntropyPool cfg)) \<and>
    (Metrics_TLSEnabled (cfg_Metrics cfg) \<longrightarrow>
       tls_valid (Metrics_TLSCertFile (cfg_Metrics cfg)) (Metrics_TLSKeyFile (cfg_Metrics cfg))
         (Metrics_TLSCAFile (cfg_Metrics cfg)) (Metrics_TLSClientAuth (cfg_Metrics cfg))) \<and>
    (GRPC_Enabled (cfg_GRPC cfg) \<and> GRPC_TLSEnabled (cfg_GRPC cfg) \<longrightarrow>
       tls_valid (GRPC_TLSCertFile (cfg_GRPC cfg)) (GRPC_TLSKeyFile (cfg_GRPC cfg))
         (GRPC_TLSCAFile (cfg_GRPC cfg)) (GRPC_TLSClientAuth (cfg_GRPC cfg))) \<and>
    (Cloud_Enabled (cfg_CloudForwarder cfg) \<longrightarrow> ServerAddr (cfg_CloudForwarder cfg) \<noteq> [] \<and>
       (Cloud_TLSEnabled (cfg_CloudForwarder cfg) \<longrightarrow> Cloud_TLSCAFile (cfg_CloudForwarder cfg) \<noteq> [] \<and>
          (Cloud_TLSCertFile (cfg_CloudForwarder cfg) \<noteq> [] \<longleftrightarrow> Cloud_TLSKeyFile (cfg_CloudForwarder cfg) \<noteq> [])) \<and>
       (OAuth2Enabled (cfg_CloudForwarder cfg) \<longrightarrow> OAuth2TokenURL (cfg_CloudForwarder cfg) \<noteq> [] \<and>
          OAuth2ClientID (cfg_CloudForwarder cfg) \<noteq> [] \<and> OAuth2ClientSecret (cfg_CloudForwarder cfg) \<noteq> []))"
  using Load_valid[OF assms] unfolding config_valid_def Let_def
  by (auto simp: IsDevelopment_def IsProduction_def EnvironmentDevelopment_def EnvironmentProduction_def)

text \<open>A production environment with a public endpoint and its certificate files.\<close>

definition production_env :: environ where
  "production_env =
     [''ENVIRONMENT'' \<mapsto> ''prod'', ''ALLOW_PUBLIC_HTTP'' \<mapsto> ''yes'',
      ''ENTROPY_TLS_ENABLED'' \<mapsto> '' TRUE # internal CA'', ''TLS_CERT_FILE'' \<mapsto> ''/c'', ''TLS_KEY_FILE'' \<mapsto> ''/k'']"

lemma production_env_loads:
  "(case Load production_env (\<lambda>_. None) of
      Inl _ \<Rightarrow> False
    | Inr cfg \<Rightarrow> AllowPublic (cfg_EntropyPool cfg) \<and> cfg_Environment cfg = ''prod'')"
  by code_simp

theorem loaded_config_is_safe_witness:
  "\<exists>cfg. Load production_env (\<lambda>_. None) = Inr cfg \<and> AllowPublic (cfg_EntropyPool cfg) \<and>
     Pool_TLSEnabled (cfg_EntropyPool cfg)"
proof -
  obtain cfg where c: "Load production_env (\<lambda>_. None) = Inr cfg" "AllowPublic (cfg_EntropyPool cfg)"
    "cfg_Environment cfg = ''prod''"
    using production_env_loads by (auto split: sum.splits)
  have "AllowPublic (cfg_EntropyPool cfg) \<and> cfg_Environment cfg = ''prod'' \<longrightarrow>
      Pool_TLSEnabled (cfg_EntropyPool cfg)"
    using loaded_config_is_safe[OF c(1)] by blast
  with c show ?thesis by blast
qed

text \<open>C29: Every number of a loaded configuration is in range: the batch size between 1840 and 184000,
  the QoS 0 or 1, the bounds of the pool positive and ordered, rate, burst, retry interval, port and
  the delays of the forwarder positive, the rotation interval not negative.\<close>

theorem loaded_numbers_in_range:
  assumes "Load env read_file = Inr cfg"
  shows "1840 \<le> cfg_BatchSize cfg \<and> cfg_BatchSize cfg \<le> 184000 \<and> QoS (cfg_MQTT cfg) \<in> {0, 1} \<and>
    0 < PoolMinBytes (cfg_EntropyPool cfg) \<and>
    PoolMinBytes (cfg_EntropyPool cfg) \<le> PoolMaxBytes (cfg_EntropyPool cfg) \<and>
    0 < ReadyMinBytes (cfg_EntropyPool cfg) \<and> 0 < RetryAfterSec (cfg_EntropyPool cfg) \<and>
    0 < RateLimitRPS (cfg_EntropyPool cfg) \<and> 0 < RateLimitBurst (cfg_EntropyPool cfg) \<and>
    0 < Port (cfg_Metrics cfg) \<and> 0 < ConnectTimeout (cfg_CloudForwarder cfg) \<and>
    0 < ReconnectDelay (cfg_CloudForwarder cfg) \<and> 0 < MaxReconnectSec (cfg_CloudForwarder cfg) \<and>
    0 \<le> StreamRotateInterval (cfg_CloudForwarder cfg)"
  using Load_ranges[OF assms]
  by (simp add: config_ranges_def Let_def minBatchSize_def maxBatchSize_def)

theorem loaded_numbers_in_range_witness:
  "\<exists>cfg. Load production_env (\<lambda>_. None) = Inr cfg \<and> 1840 \<le> cfg_BatchSize cfg \<and> QoS (cfg_MQTT cfg) \<in> {0, 1}"
proof -
  obtain cfg where "Load production_env (\<lambda>_. None) = Inr cfg"
    using production_env_loads by (auto split: sum.splits)
  with loaded_numbers_in_range[OF this] show ?thesis by blast
qed

lemma space_runes_no_plain: "w \<in> set space_runes \<Longrightarrow> c \<in> set w \<Longrightarrow> \<not> plain_char c"
proof -
  have "list_all (\<lambda>w. list_all (\<lambda>c. \<not> plain_char c) w) space_runes"
    by (simp add: space_runes_def plain_char_def)
  then show "w \<in> set space_runes \<Longrightarrow> c \<in> set w \<Longrightarrow> \<not> plain_char c" by (auto simp: list_all_iff)
qed

text \<open>Trimming from the right stops at the latest at a plain character.\<close>

lemma trim_right_keeps:
  "plain_char c \<Longrightarrow> \<exists>zs. trim_right (xs @ c # ys) = xs @ c # zs"
proof (induction "xs @ c # ys" arbitrary: ys rule: trim_right.induct)
  case 1
  let ?s = "xs @ c # ys"
  show ?case
  proof (cases "space_suffix ?s = 0")
    case True
    then show ?thesis by (simp add: trim_right_id)
  next
    case False
    then obtain w where w: "w \<in> set space_runes" "suffix w ?s" "space_suffix ?s = length w"
      using space_suffix_in by blast
    have "length w \<le> length ys"
    proof (rule ccontr)
      assume "\<not> length w \<le> length ys"
      then have "c \<in> set w" using w(2) by (auto simp: suffix_def append_eq_append_conv2 Cons_eq_append_conv)
      with space_runes_no_plain[OF w(1)] 1(2) show False by blast
    qed
    then have "Suc (length ys) - length w = Suc (length ys - length w)" by simp
    then have t: "take (length ?s - space_suffix ?s) ?s = xs @ c # take (length ys - length w) ys"
      by (simp add: w(3))
    obtain zs where "trim_right (xs @ c # take (length ys - length w) ys) = xs @ c # zs"
      using 1(1)[OF refl False t] 1(2) by blast
    with False t show ?thesis by (subst trim_right.simps) (simp add: Let_def)
  qed
qed

lemma cleanEnvValue_comment:
  assumes "ds \<noteq> []" and "list_all is_digit ds"
  shows "cleanEnvValue (ds @ CHR '' '' # CHR 0x23 # rest) = ds"
proof -
  let ?v = "(ds @ [CHR '' '']) @ CHR 0x23 # rest"
  have hash: "plain_char CHR 0x23" by (simp add: plain_char_def)
  have dig: "is_digit (hd ds)" using assms by (cases ds) auto
  have "trim_left ?v = ?v"
  proof (rule trim_left_id)
    have "\<not> prefix w ?v" if w: "w \<in> set space_runes" for w
    proof
      assume "prefix w ?v"
      with space_runes_nonempty[OF w] assms(1) have "hd w = hd ds" "hd w \<in> set w"
        by (auto simp: prefix_def neq_Nil_conv)
      with space_runes_no_plain[OF w] is_digit_plain[OF dig] show False by auto
    qed
    then show "space_prefix ?v = 0" by (simp add: space_prefix_0_iff)
  qed
  then obtain zs where t: "TrimSpace ?v = (ds @ [CHR '' '']) @ CHR 0x23 # zs"
    using trim_right_keeps[OF hash] unfolding TrimSpace_def by metis
  have nh: "CHR 0x23 \<notin> set ds" using assms(2) by (auto simp: list_all_iff is_digit_def)
  then have "takeWhile (\<lambda>c. c \<noteq> CHR 0x23) (TrimSpace ?v) = ds @ [CHR '' '']"
    unfolding t by (subst takeWhile_append2) auto
  moreover have "TrimSpace (ds @ [CHR '' '']) = ds"
  proof -
    let ?u = "ds @ [CHR '' '']"
    have "trim_left ?u = ?u"
    proof (rule trim_left_id)
      have "\<not> prefix w ?u" if w: "w \<in> set space_runes" for w
      proof
        assume "prefix w ?u"
        with space_runes_nonempty[OF w] assms(1) have "hd w = hd ds" "hd w \<in> set w"
          by (auto simp: prefix_def neq_Nil_conv)
        with space_runes_no_plain[OF w] is_digit_plain[OF dig] show False by auto
      qed
      then show "space_prefix ?u = 0" by (simp add: space_prefix_0_iff)
    qed
    moreover have "space_suffix ?u = 1" by (simp add: space_suffix_def space_runes_def)
    then have "trim_right ?u = trim_right ds" by (subst trim_right.simps) (simp add: Let_def)
    moreover have "trim_right ds = ds"
      using TrimSpace_digits[OF assms] trim_left_suffix[of ds] trim_right_prefix[of "trim_left ds"]
      unfolding TrimSpace_def
      by (metis prefix_length_le suffix_length_le le_antisym suffix_order.eq_iff suffix_def
          append_Nil length_append add_cancel_left_left length_0_conv)
    ultimately show ?thesis by (simp add: TrimSpace_def)
  qed
  ultimately show ?thesis using t by (simp add: cleanEnvValue_def strip_comment_def)
qed

text \<open>C28: A printed positive number set in the environment is read back exactly, with or without an
  inline comment after it, and cleaning a value a second time changes nothing.\<close>

theorem printed_number_is_read_back:
  assumes "env key \<in> {Some (Itoa n), Some (Itoa n @ '' #'' @ comment)}"
    and "0 < n" and "n \<le> max_int64"
  shows "ParsePositiveEnvInt env key fallback = n \<and> cleanEnvValue (cleanEnvValue v) = cleanEnvValue v"
proof -
  have i: "Itoa n = utoa (nat n)" using assms(2) by (simp add: Itoa_def)
  have c: "cleanEnvValue (utoa (nat n) @ CHR '' '' # CHR 0x23 # comment) = utoa (nat n)"
    by (intro cleanEnvValue_comment utoa_nonempty utoa_digits)
  define env' where "env' = env(key \<mapsto> Itoa n)"
  have "ParsePositiveEnvInt env' key fallback = n"
    using assms(2,3) by (intro ParsePositiveEnvInt_printed) (simp_all add: env'_def)
  moreover have "ParsePositiveEnvInt env key fallback = ParsePositiveEnvInt env' key fallback"
    using assms(1) c by (auto simp: ParsePositiveEnvInt_def env'_def i cleanEnvValue_digits utoa_digits)
  ultimately show ?thesis by (simp add: cleanEnvValue_idem)
qed

theorem printed_number_is_read_back_witness:
  "ParsePositiveEnvInt [''ENTROPY_RATE_LIMIT_RPS'' \<mapsto> Itoa 50 @ '' # requests''] ''ENTROPY_RATE_LIMIT_RPS'' 25 = 50"
  using printed_number_is_read_back[of "[''ENTROPY_RATE_LIMIT_RPS'' \<mapsto> Itoa 50 @ '' # requests'']"
      "''ENTROPY_RATE_LIMIT_RPS''" 50 "'' requests''" 25 "[]"]
  by (simp add: max_int64_def)

end
