(* ===== verification/Grpc_Client.thy ===== *)
theory Grpc_Client
  imports Config Metrics
begin

text \<open>
  The gRPC client of \<^verbatim>\<open>internal/grpc/client.go\<close>. The third-party library (dialling, streams) is an
  argument: each call that reaches it takes its outcome. \<open>GrpcClient\<close> is the struct; the
  goroutines it starts (acknowledgement receivers, the rotation timer, reconnect loops) are part
  of the state, and their interleaving with the callers is the function \<open>gstep\<close> on labels.
\<close>

subsection \<open>Messages\<close>

record PbTDCEvent =
  pb_RpiTimestampUs :: u64
  pb_TdcTimestampPs :: u64
  pb_Channel :: u32
  pb_WhitenedEntropy :: "byte list"

record EntropyBatch =
  eb_Events :: "PbTDCEvent list"
  eb_BatchTimestampUs :: u64
  eb_BatchSequence :: u32
  eb_SourceId :: string

record Ack =
  ack_Success :: bool
  ack_Message :: string
  ack_Backpressure :: bool
  ack_MissingSequences :: "u32 list"

subsection \<open>State\<close>

text \<open>
  Streams are numbered in the order in which they were opened. \<open>gc_receivers\<close> are the streams
  on which a \<^verbatim>\<open>receiveAcks\<close> goroutine is blocked, \<open>gc_spawned\<close> counts the \<^verbatim>\<open>go c.reconnect()\<close>
  goroutines that have not run yet, and \<open>gc_loop\<close> is where the one running loop is.
\<close>

datatype reconnect_pc =
    RcIdle
  | RcTop int       \<comment> \<open>top of the loop, with the current delay\<close>
  | RcWaiting int   \<comment> \<open>in the select on the timer and the context\<close>
  | RcDialing int   \<comment> \<open>old connection closed, about to connect\<close>
  | RcReturning     \<comment> \<open>connected, or context done; the deferred reset is still to run\<close>

datatype grpc_error =
    ForwarderDisabled | ServerAddressRequired | BuildFailed | StreamFailed
  | NotConnected | SendFailed | CloseFailed

record GrpcClient =
  gc_cfg :: CloudForwarder
  gc_conn :: bool
  gc_stream :: "nat option"
  gc_connected :: bool
  gc_ctxDone :: bool
  gc_rotateTimer :: bool
  gc_reconnecting :: bool
  gc_receivers :: "nat list"
  gc_opened :: nat
  gc_spawned :: nat
  gc_loop :: reconnect_pc

subsection \<open>Operations\<close>

definition stopRotationTimer :: "GrpcClient \<Rightarrow> GrpcClient" where
  "stopRotationTimer c = c\<lparr>gc_rotateTimer := False\<rparr>"

definition resetRotationTimer :: "GrpcClient \<Rightarrow> GrpcClient" where
  "resetRotationTimer c =
     (let c1 = stopRotationTimer c
      in if StreamRotateInterval (gc_cfg c1) \<le> 0 then c1 else c1\<lparr>gc_rotateTimer := True\<rparr>)"

text \<open>What \<open>connect\<close> asks the connection builder for; without TLS the transport is insecure.\<close>

record dial_settings =
  dial_Address :: string
  dial_OAuth2 :: "(string \<times> string \<times> string \<times> string) option"
  dial_TLS :: "(string \<times> string \<times> string \<times> string) option"

definition grpc_dial :: "CloudForwarder \<Rightarrow> dial_settings" where
  "grpc_dial cfg =
     \<lparr>dial_Address = ServerAddr cfg,
      dial_OAuth2 = (if OAuth2Enabled cfg
        then Some (OAuth2TokenURL cfg, OAuth2ClientID cfg, OAuth2ClientSecret cfg, OAuth2Scopes cfg)
        else None),
      dial_TLS = (if Cloud_TLSEnabled cfg
        then Some (Cloud_TLSCAFile cfg, Cloud_TLSCertFile cfg, Cloud_TLSKeyFile cfg, Cloud_TLSServerName cfg)
        else None)\<rparr>"

datatype dial_outcome = DialBuildFails | DialStreamFails | DialOk

definition grpc_connect :: "GrpcClient \<Rightarrow> dial_outcome \<Rightarrow> GrpcClient \<times> grpc_error option \<times> metric_log" where
  "grpc_connect c outcome =
     (case outcome of
        DialBuildFails \<Rightarrow> (c, Some BuildFailed, [])
      | DialStreamFails \<Rightarrow> (c\<lparr>gc_conn := True\<rparr>, Some StreamFailed, [])
      | DialOk \<Rightarrow>
          let stream = gc_opened c;
              c1 = c\<lparr>gc_conn := True, gc_stream := Some stream, gc_opened := gc_opened c + 1,
                    gc_connected := True\<rparr>;
              ms = SetGRPCConnected True;
              c2 = c1\<lparr>gc_receivers := gc_receivers c1 @ [stream]\<rparr>
          in (resetRotationTimer c2, None, ms))"

definition grpc_NewClient ::
    "CloudForwarder \<Rightarrow> dial_outcome \<Rightarrow> (grpc_error + GrpcClient) \<times> metric_log" where
  "grpc_NewClient cfg outcome =
     (if \<not> Cloud_Enabled cfg then (Inl ForwarderDisabled, [])
      else if ServerAddr cfg = [] then (Inl ServerAddressRequired, [])
      else
        let c = \<lparr>gc_cfg = cfg, gc_conn = False, gc_stream = None, gc_connected = False,
                 gc_ctxDone = False, gc_rotateTimer = False, gc_reconnecting = False,
                 gc_receivers = [], gc_opened = 0, gc_spawned = 0, gc_loop = RcIdle\<rparr>
        in case grpc_connect c outcome of
             (_, Some err, ms) \<Rightarrow> (Inl err, ms)
           | (c', None, ms) \<Rightarrow> (Inr c', ms))"

text \<open>The batch put on the stream is returned; \<open>sendOk\<close> is the outcome of the stream's \<^verbatim>\<open>Send\<close>.\<close>

definition grpc_SendBatch ::
    "GrpcClient \<Rightarrow> bool \<Rightarrow> int \<Rightarrow> PbTDCEvent list \<Rightarrow> u32 \<Rightarrow>
     GrpcClient \<times> grpc_error option \<times> EntropyBatch option \<times> metric_log" where
  "grpc_SendBatch c sendOk nowMicros events sequence =
     (if \<not> gc_connected c then (c, Some NotConnected, None, [])
      else
        let batch = \<lparr>eb_Events = events, eb_BatchTimestampUs = word_of_int nowMicros,
                     eb_BatchSequence = sequence, eb_SourceId = []\<rparr>
        in if \<not> sendOk then
             (c\<lparr>gc_connected := False, gc_spawned := gc_spawned c + 1\<rparr>, Some SendFailed, None,
              SetGRPCConnected False @ RecordGRPCError ''send_failed'')
           else (c, None, Some batch, []))"

definition handleAck :: "Ack option \<Rightarrow> metric_log" where
  "handleAck ack =
     (case ack of
        None \<Rightarrow> []
      | Some a \<Rightarrow>
          RecordCloudAck (ack_Success a) (ack_Message a) @
          (if ack_Backpressure a then RecordBackpressure else []) @
          (if ack_MissingSequences a \<noteq> []
           then RecordMissingSequence (int (length (ack_MissingSequences a))) else []))"

text \<open>A receive error in \<^verbatim>\<open>receiveAcks\<close>: the goroutine ends.\<close>

definition recv_error :: "GrpcClient \<Rightarrow> nat \<Rightarrow> bool \<Rightarrow> GrpcClient \<times> metric_log" where
  "recv_error c stream eof =
     (c\<lparr>gc_receivers := remove1 stream (gc_receivers c), gc_connected := False,
        gc_spawned := gc_spawned c + 1\<rparr>,
      (if eof then [] else RecordGRPCError ''recv_failed'') @ SetGRPCConnected False)"

text \<open>The back-off: doubled, as a 64-bit duration, and capped.\<close>

definition next_delay :: "int \<Rightarrow> int \<Rightarrow> int" where
  "next_delay maxDelay delay =
     (let d = wrap_int (delay * 2) in if d > maxDelay then maxDelay else d)"

definition initial_delay :: "CloudForwarder \<Rightarrow> int" where
  "initial_delay cfg = wrap_int (ReconnectDelay cfg * second)"

definition max_delay :: "CloudForwarder \<Rightarrow> int" where
  "max_delay cfg = wrap_int (MaxReconnectSec cfg * second)"

definition IsConnected :: "GrpcClient \<Rightarrow> bool" where
  "IsConnected c = gc_connected c"

subsection \<open>Interleavings\<close>

datatype glabel =
    GSend bool int "PbTDCEvent list" u32   \<comment> \<open>a caller of \<open>SendBatch\<close>\<close>
  | GRecvErr nat bool                      \<comment> \<open>a receiver sees an error on its stream\<close>
  | GAck nat "Ack option"                  \<comment> \<open>a receiver gets an acknowledgement\<close>
  | GRotate                                \<comment> \<open>the rotation timer fires\<close>
  | GStart                                 \<comment> \<open>a spawned reconnect goroutine runs its first lines\<close>
  | GTop                                   \<comment> \<open>the loop tests the context and starts to wait\<close>
  | GWaited                                \<comment> \<open>the wait is over; the old connection is closed\<close>
  | GConnect dial_outcome                  \<comment> \<open>\<open>connect\<close> returns\<close>
  | GReturn                                \<comment> \<open>the deferred reset of \<open>reconnecting\<close>\<close>
  | GCancel                                \<comment> \<open>\<open>Close\<close> stops the timer and cancels the context\<close>
  | GCtxReceiver nat                       \<comment> \<open>a receiver leaves because the context is done\<close>
  | GCtxLoop                               \<comment> \<open>the loop leaves because the context is done\<close>

text \<open>
  After an acknowledgement a receiver reads \<^verbatim>\<open>c.stream\<close> again, so it moves to the current stream;
  several receivers may then wait on one stream.
\<close>

fun gstep :: "GrpcClient \<Rightarrow> glabel \<Rightarrow> (GrpcClient \<times> metric_log) option" where
  "gstep c (GSend ok now events sequence) =
     (case grpc_SendBatch c ok now events sequence of (c', _, _, ms) \<Rightarrow> Some (c', ms))"
| "gstep c (GRecvErr stream eof) =
     (if stream \<in> set (gc_receivers c) then Some (recv_error c stream eof) else None)"
| "gstep c (GAck stream ack) =
     (if stream \<in> set (gc_receivers c)
      then Some (c\<lparr>gc_receivers := (case gc_stream c of
                     None \<Rightarrow> gc_receivers c
                   | Some current \<Rightarrow> remove1 stream (gc_receivers c) @ [current])\<rparr>, handleAck ack)
      else None)"
| "gstep c GRotate =
     (if gc_rotateTimer c
      then Some (c\<lparr>gc_rotateTimer := False, gc_spawned := gc_spawned c + 1\<rparr>, []) else None)"
| "gstep c GStart =
     (case gc_spawned c of
        0 \<Rightarrow> None
      | Suc n \<Rightarrow>
          if gc_reconnecting c then Some (c\<lparr>gc_spawned := n\<rparr>, [])
          else Some (c\<lparr>gc_spawned := n, gc_reconnecting := True,
                       gc_loop := RcTop (initial_delay (gc_cfg c))\<rparr>, []))"
| "gstep c GTop =
     (case gc_loop c of
        RcTop delay \<Rightarrow>
          Some (c\<lparr>gc_loop := (if gc_ctxDone c then RcReturning else RcWaiting delay)\<rparr>, [])
      | _ \<Rightarrow> None)"
| "gstep c GWaited =
     (case gc_loop c of RcWaiting delay \<Rightarrow> Some (c\<lparr>gc_loop := RcDialing delay\<rparr>, []) | _ \<Rightarrow> None)"
| "gstep c (GConnect outcome) =
     (case gc_loop c of
        RcDialing delay \<Rightarrow>
          (case grpc_connect c outcome of
             (c', Some _, ms) \<Rightarrow>
               Some (c'\<lparr>gc_loop := RcTop (next_delay (max_delay (gc_cfg c)) delay)\<rparr>,
                     ms @ RecordGRPCReconnect)
           | (c', None, ms) \<Rightarrow> Some (c'\<lparr>gc_loop := RcReturning\<rparr>, ms @ RecordGRPCReconnect))
      | _ \<Rightarrow> None)"
| "gstep c GReturn =
     (case gc_loop c of
        RcReturning \<Rightarrow> Some (c\<lparr>gc_loop := RcIdle, gc_reconnecting := False\<rparr>, []) | _ \<Rightarrow> None)"
| "gstep c GCancel = Some ((stopRotationTimer c)\<lparr>gc_ctxDone := True\<rparr>, [])"
| "gstep c (GCtxReceiver stream) =
     (if gc_ctxDone c \<and> stream \<in> set (gc_receivers c)
      then Some (c\<lparr>gc_receivers := remove1 stream (gc_receivers c)\<rparr>, []) else None)"
| "gstep c GCtxLoop =
     (case gc_loop c of
        RcWaiting delay \<Rightarrow> if gc_ctxDone c then Some (c\<lparr>gc_loop := RcReturning\<rparr>, []) else None
      | _ \<Rightarrow> None)"

fun grun :: "GrpcClient \<Rightarrow> glabel list \<Rightarrow> (GrpcClient \<times> metric_log) option" where
  "grun c [] = Some (c, [])"
| "grun c (l # ls) =
     (case gstep c l of
        None \<Rightarrow> None
      | Some (c1, ms1) \<Rightarrow>
          (case grun c1 ls of None \<Rightarrow> None | Some (c2, ms2) \<Rightarrow> Some (c2, ms1 @ ms2)))"

text \<open>The last statements of \<open>Close\<close>, after \<^verbatim>\<open>wg.Wait\<close>: it has to find no receiver and no timer.\<close>

definition grpc_Close_tail :: "GrpcClient \<Rightarrow> bool \<Rightarrow> (grpc_error option \<times> metric_log) option" where
  "grpc_Close_tail c closeOk =
     (if gc_receivers c \<noteq> [] \<or> gc_rotateTimer c then None
      else Some (if gc_conn c \<and> \<not> closeOk then Some CloseFailed else None, SetGRPCConnected False))"

subsection \<open>Invariant\<close>

definition gc_invar :: "GrpcClient \<Rightarrow> bool" where
  "gc_invar c \<longleftrightarrow>
     (gc_reconnecting c \<longleftrightarrow> gc_loop c \<noteq> RcIdle) \<and>
     (\<forall>i \<in> set (gc_receivers c). i < gc_opened c) \<and>
     (\<forall>i. gc_stream c = Some i \<longrightarrow> i < gc_opened c) \<and>
     (gc_connected c \<longrightarrow> gc_stream c \<noteq> None \<and> gc_conn c)"

lemma rotation_frame [simp]:
  "gc_cfg (resetRotationTimer c) = gc_cfg c" "gc_conn (resetRotationTimer c) = gc_conn c"
  "gc_stream (resetRotationTimer c) = gc_stream c"
  "gc_connected (resetRotationTimer c) = gc_connected c"
  "gc_ctxDone (resetRotationTimer c) = gc_ctxDone c"
  "gc_reconnecting (resetRotationTimer c) = gc_reconnecting c"
  "gc_receivers (resetRotationTimer c) = gc_receivers c"
  "gc_opened (resetRotationTimer c) = gc_opened c"
  "gc_spawned (resetRotationTimer c) = gc_spawned c"
  "gc_loop (resetRotationTimer c) = gc_loop c"
  by (simp_all add: resetRotationTimer_def stopRotationTimer_def Let_def)

lemma connect_cases:
  obtains (failed) c' e where "grpc_connect c out = (c', Some e, [])" "out \<noteq> DialOk"
      "c' = c \<or> c' = c\<lparr>gc_conn := True\<rparr>"
  | (opened) "out = DialOk" "grpc_connect c out =
      (resetRotationTimer (c\<lparr>gc_conn := True, gc_stream := Some (gc_opened c),
         gc_opened := gc_opened c + 1, gc_connected := True,
         gc_receivers := gc_receivers c @ [gc_opened c]\<rparr>), None, SetGRPCConnected True)"
  by (cases out) (simp_all add: grpc_connect_def Let_def)

lemma connect_invar:
  assumes "gc_invar c" and "grpc_connect c out = (c', r, ms)"
  shows "gc_invar (c'\<lparr>gc_loop := pc\<rparr>) \<longleftrightarrow> (gc_reconnecting c \<longleftrightarrow> pc \<noteq> RcIdle)"
  using assms
  by (cases rule: connect_cases[where c = c and out = out])
     (force simp: gc_invar_def less_Suc_eq)+

lemma grpc_NewClient_invar:
  assumes "grpc_NewClient cfg out = (Inr c, ms)"
  shows "gc_invar c \<and> gc_connected c \<and> gc_loop c = RcIdle \<and> gc_spawned c = 0 \<and>
    gc_receivers c = [0] \<and> gc_stream c = Some 0 \<and> \<not> gc_ctxDone c \<and> gc_cfg c = cfg"
  using assms
  by (cases out) (auto simp: grpc_NewClient_def grpc_connect_def gc_invar_def Let_def split: if_splits)

lemma gstep_invar:
  assumes "gc_invar c" and "gstep c l = Some (c', ms)"
  shows "gc_invar c'"
proof (cases l)
  case (GConnect out)
  with assms(2) obtain delay where pc: "gc_loop c = RcDialing delay"
    by (auto split: reconnect_pc.splits)
  obtain c1 r ms1 where conn: "grpc_connect c out = (c1, r, ms1)" by (cases "grpc_connect c out") auto
  have "gc_reconnecting c" using assms(1) pc by (simp add: gc_invar_def)
  with connect_invar[OF assms(1) conn] have
    "gc_invar (c1\<lparr>gc_loop := RcReturning\<rparr>)" "gc_invar (c1\<lparr>gc_loop := RcTop d\<rparr>)" for d by simp_all
  with assms(2) GConnect pc conn show ?thesis by (auto split: option.splits)
qed (use assms in \<open>auto simp: gc_invar_def grpc_SendBatch_def recv_error_def stopRotationTimer_def Let_def
       split: if_splits nat.splits reconnect_pc.splits option.splits dest: notin_set_remove1\<close>)

lemma grun_invar: "gc_invar c \<Longrightarrow> grun c ls = Some (c', ms) \<Longrightarrow> gc_invar c'"
proof (induction ls arbitrary: c ms)
  case (Cons l ls)
  then show ?case by (auto split: option.splits prod.splits intro: gstep_invar)
qed simp

subsection \<open>Back-off\<close>

lemma next_delay_eq:
  assumes "0 < d" "d \<le> mx" "2 * mx \<le> max_int64"
  shows "next_delay mx d = min mx (d * 2)"
proof -
  have "in_int64 (d * 2)" using assms by (simp add: in_int64_def min_int64_def)
  then show ?thesis by (simp add: next_delay_def Let_def)
qed

lemma next_delay_iter:
  assumes "0 < d" "d \<le> mx" "2 * mx \<le> max_int64"
  shows "(next_delay mx ^^ k) d = min mx (d * 2 ^ k)"
proof (induction k)
  case (Suc k)
  have "0 < d * 2 ^ k" using assms(1) by simp
  then have "next_delay mx (min mx (d * 2 ^ k)) = min mx (min mx (d * 2 ^ k) * 2)"
    using assms by (intro next_delay_eq) auto
  also have "\<dots> = min mx (d * 2 ^ Suc k)" using assms by auto
  finally show ?case using Suc by simp
qed (use assms in simp)

text \<open>A first delay above the maximum is not capped, the ones after it are.\<close>

lemma next_delay_Suc_iter:
  assumes "0 < d" "2 * d \<le> max_int64" "0 < mx" "2 * mx \<le> max_int64"
  shows "(next_delay mx ^^ Suc k) d = min mx (d * 2 ^ Suc k)"
proof -
  have "in_int64 (d * 2)" using assms by (simp add: in_int64_def min_int64_def)
  then have "next_delay mx d = min mx (d * 2)" by (simp add: next_delay_def Let_def)
  then have "(next_delay mx ^^ Suc k) d = (next_delay mx ^^ k) (min mx (d * 2))"
    by (simp add: funpow_swap1)
  also have "\<dots> = min mx (min mx (d * 2) * 2 ^ k)" using assms by (intro next_delay_iter) auto
  also have "\<dots> = min mx (d * 2 ^ Suc k)"
  proof -
    have "mx * 1 \<le> mx * 2 ^ k" using assms(3) by (intro mult_left_mono) auto
    then show ?thesis by (simp add: min_mult_distrib_right)
  qed
  finally show ?thesis .
qed

text \<open>Delays of the configured length, in seconds, do not leave the 64-bit range.\<close>

lemma seconds_in_range: "0 \<le> n \<Longrightarrow> n \<le> 9223372036 \<Longrightarrow> wrap_int (n * second) = n * second"
  by (intro wrap_int_id) (simp add: in_int64_def max_int64_def min_int64_def second_def)

text \<open>Longer ones do, and the wait then is none at all.\<close>

lemma overlong_delay_is_negative: "ReconnectDelay cfg = 9223372037 \<Longrightarrow> initial_delay cfg < 0"
proof -
  assume "ReconnectDelay cfg = 9223372037"
  moreover have "wrap_int (9223372037 * second) < 0" by code_simp
  ultimately show ?thesis by (simp add: initial_delay_def)
qed

subsection \<open>A disconnected client reconnects\<close>

definition loop_busy :: "GrpcClient \<Rightarrow> bool" where
  "loop_busy c = (case gc_loop c of RcTop _ \<Rightarrow> True | RcWaiting _ \<Rightarrow> True | RcDialing _ \<Rightarrow> True | _ \<Rightarrow> False)"

definition reconnect_due :: "GrpcClient \<Rightarrow> bool" where
  "reconnect_due c \<longleftrightarrow> gc_ctxDone c \<or>
     (if gc_connected c then True else 0 < gc_spawned c \<or> loop_busy c) \<and>
     (gc_loop c = RcReturning \<longrightarrow> gc_connected c)"

text \<open>A step is timely unless it reports a failure while a reconnect loop is returning.\<close>

definition reports_failure :: "glabel \<Rightarrow> bool" where
  "reports_failure l = (case l of GSend ok _ _ _ \<Rightarrow> \<not> ok | GRecvErr _ _ \<Rightarrow> True | _ \<Rightarrow> False)"

definition timely :: "GrpcClient \<Rightarrow> glabel \<Rightarrow> bool" where
  "timely c l \<longleftrightarrow> \<not> (reports_failure l \<and> gc_loop c = RcReturning)"

fun timely_run :: "GrpcClient \<Rightarrow> glabel list \<Rightarrow> bool" where
  "timely_run c [] = True"
| "timely_run c (l # ls) =
     (timely c l \<and> (case gstep c l of None \<Rightarrow> False | Some (c', _) \<Rightarrow> timely_run c' ls))"

lemma gstep_reconnect_due:
  assumes "gc_invar c" and "reconnect_due c" and "timely c l" and "gstep c l = Some (c', ms)"
  shows "reconnect_due c'"
proof (cases l)
  case (GConnect out)
  with assms(4) obtain delay where pc: "gc_loop c = RcDialing delay"
    by (auto split: reconnect_pc.splits)
  show ?thesis
  proof (cases rule: connect_cases[where c = c and out = out])
    case (failed c1 e)
    with assms GConnect pc show ?thesis by (auto simp: reconnect_due_def loop_busy_def)
  next
    case opened
    with assms GConnect pc show ?thesis by (auto simp: reconnect_due_def)
  qed
next
  case (GSend ok now events sequence)
  with assms show ?thesis
    by (auto simp: grpc_SendBatch_def Let_def reconnect_due_def timely_def reports_failure_def split: if_splits)
next
  case (GRecvErr i eof)
  with assms show ?thesis
    by (auto simp: recv_error_def reconnect_due_def timely_def reports_failure_def split: if_splits)
next
  case GStart
  with assms show ?thesis
    by (auto simp: reconnect_due_def gc_invar_def loop_busy_def split: nat.splits if_splits reconnect_pc.splits)
next
  case GTop
  with assms show ?thesis
    by (auto simp: reconnect_due_def loop_busy_def split: reconnect_pc.splits if_splits)
next
  case GWaited
  with assms show ?thesis
    by (auto simp: reconnect_due_def loop_busy_def split: reconnect_pc.splits if_splits)
next
  case GReturn
  with assms show ?thesis
    by (auto simp: reconnect_due_def loop_busy_def split: reconnect_pc.splits if_splits)
next
  case GCtxLoop
  with assms show ?thesis
    by (auto simp: reconnect_due_def loop_busy_def split: reconnect_pc.splits if_splits)
qed (use assms in \<open>auto simp: reconnect_due_def stopRotationTimer_def loop_busy_def split: if_splits\<close>)

lemma timely_run_reconnect_due:
  "gc_invar c \<Longrightarrow> reconnect_due c \<Longrightarrow> timely_run c ls \<Longrightarrow> grun c ls = Some (c', ms) \<Longrightarrow>
     reconnect_due c'"
proof (induction ls arbitrary: c ms)
  case (Cons l ls)
  then obtain c1 ms1 ms2 where s: "gstep c l = Some (c1, ms1)" "grun c1 ls = Some (c', ms2)"
    by (auto split: option.splits prod.splits)
  have t: "timely c l" "timely_run c1 ls" using Cons.prems(3) s(1) by simp_all
  have "gc_invar c1" using Cons.prems(1) s(1) by (rule gstep_invar)
  moreover have "reconnect_due c1" using Cons.prems(1,2) t(1) s(1) by (rule gstep_reconnect_due)
  ultimately show ?case using t(2) s(2) by (rule Cons.IH)
qed simp

text \<open>
  The window is real: a failure reported while a loop is returning, from the stream just opened
  or from the receiver of the one it replaced, starts a reconnect that finds the loop still
  marked as running and gives up; afterwards nothing is left that would reconnect.
\<close>

definition abandoned :: "GrpcClient \<Rightarrow> bool" where
  "abandoned c \<longleftrightarrow> \<not> gc_connected c \<and> \<not> gc_ctxDone c \<and> gc_spawned c = 0 \<and>
     gc_loop c = RcIdle \<and> \<not> gc_reconnecting c \<and> \<not> gc_rotateTimer c"

lemma abandoned_by_late_failure:
  assumes "gc_invar c" and "gc_loop c = RcReturning" and "gc_spawned c = 0"
    and "\<not> gc_ctxDone c" and "\<not> gc_rotateTimer c" and "i \<in> set (gc_receivers c)"
  shows "\<exists>c' ms. grun c [GRecvErr i eof, GStart, GReturn] = Some (c', ms) \<and> abandoned c' \<and>
    gc_receivers c' = remove1 i (gc_receivers c)"
proof -
  have "gc_reconnecting c" using assms(1,2) by (simp add: gc_invar_def)
  with assms show ?thesis by (simp add: recv_error_def abandoned_def)
qed

text \<open>
  From there, every further batch is refused until a receiver that is still waiting reports a
  failure of its stream.
\<close>

definition no_news :: "glabel \<Rightarrow> bool" where
  "no_news l = (case l of GRecvErr _ _ \<Rightarrow> False | GCancel \<Rightarrow> False | _ \<Rightarrow> True)"

lemma abandoned_stays:
  assumes "abandoned c" and "gstep c l = Some (c', ms)" and "no_news l"
  shows "abandoned c'"
  using assms
  by (cases l) (auto simp: abandoned_def grpc_SendBatch_def no_news_def split: if_splits option.splits)

lemma abandoned_run:
  "abandoned c \<Longrightarrow> grun c ls = Some (c', ms) \<Longrightarrow> list_all no_news ls \<Longrightarrow> abandoned c'"
proof (induction ls arbitrary: c ms)
  case (Cons l ls)
  then obtain c1 ms1 ms2 where s: "gstep c l = Some (c1, ms1)" "grun c1 ls = Some (c', ms2)"
    by (auto split: option.splits prod.splits)
  have n: "no_news l" "list_all no_news ls" using Cons.prems(3) by simp_all
  from Cons.IH[OF abandoned_stays[OF Cons.prems(1) s(1) n(1)] s(2) n(2)] show ?case .
qed simp

lemma abandoned_refuses: "abandoned c \<Longrightarrow> fst (snd (grpc_SendBatch c ok now evs sq)) = Some NotConnected"
  by (simp add: abandoned_def grpc_SendBatch_def)

text \<open>Without a rotation interval there is never a rotation timer.\<close>

lemma gstep_no_timer:
  assumes "StreamRotateInterval (gc_cfg c) \<le> 0" and "\<not> gc_rotateTimer c" and "gstep c l = Some (c', ms)"
  shows "StreamRotateInterval (gc_cfg c') \<le> 0 \<and> \<not> gc_rotateTimer c'"
  using assms
  by (cases l)
     (auto simp: grpc_SendBatch_def recv_error_def grpc_connect_def resetRotationTimer_def
       stopRotationTimer_def Let_def split: if_splits nat.splits reconnect_pc.splits option.splits
       dial_outcome.splits)

lemma grun_no_timer:
  "StreamRotateInterval (gc_cfg c) \<le> 0 \<Longrightarrow> \<not> gc_rotateTimer c \<Longrightarrow> grun c ls = Some (c', ms) \<Longrightarrow>
     \<not> gc_rotateTimer c'"
proof (induction ls arbitrary: c ms)
  case (Cons l ls)
  then obtain c1 ms1 ms2 where s: "gstep c l = Some (c1, ms1)" "grun c1 ls = Some (c', ms2)"
    by (auto split: option.splits prod.splits)
  from gstep_no_timer[OF Cons.prems(1,2) s(1)] s(2) show ?case using Cons.IH by blast
qed simp

subsection \<open>Sending and acknowledgements\<close>

text \<open>An accepted configuration makes the client dial with complete settings.\<close>

lemma loaded_dial_complete:
  assumes "Load env read_file = Inr cfg" and "Cloud_Enabled (cfg_CloudForwarder cfg)"
  shows "dial_Address (grpc_dial (cfg_CloudForwarder cfg)) \<noteq> [] \<and>
    (\<forall>ca cert key name. dial_TLS (grpc_dial (cfg_CloudForwarder cfg)) = Some (ca, cert, key, name) \<longrightarrow>
       ca \<noteq> [] \<and> (cert \<noteq> [] \<longleftrightarrow> key \<noteq> [])) \<and>
    (\<forall>url id secret scopes. dial_OAuth2 (grpc_dial (cfg_CloudForwarder cfg)) = Some (url, id, secret, scopes) \<longrightarrow>
       url \<noteq> [] \<and> id \<noteq> [] \<and> secret \<noteq> [])"
  using Load_valid[OF assms(1)] assms(2) by (auto simp: config_valid_def grpc_dial_def Let_def)

lemma grpc_SendBatch_outcome:
  assumes "grpc_SendBatch c ok now evs sq = (c', err, sent, ms)"
  shows "(sent = None \<longleftrightarrow> err \<noteq> None) \<and>
    (err = None \<longleftrightarrow> gc_connected c \<and> ok) \<and>
    (\<forall>b. sent = Some b \<longrightarrow> eb_Events b = evs \<and> eb_BatchSequence b = sq \<and> eb_SourceId b = [] \<and> c' = c) \<and>
    (err = Some SendFailed \<longrightarrow> \<not> gc_connected c' \<and> gc_spawned c' = gc_spawned c + 1) \<and> log_ok ms"
  using assms by (auto simp: grpc_SendBatch_def Let_def split: if_splits)

lemma handleAck_counts:
  "count_inc CloudAcksReceived (handleAck (Some a)) = of_bool (ack_Success a)"
  "count_inc CloudNacksReceived (handleAck (Some a)) = of_bool (\<not> ack_Success a)"
  "count_inc ForwarderBackpressureTotal (handleAck (Some a)) = of_bool (ack_Backpressure a)"
  "log_ok (handleAck ack)"
  by (auto simp: handleAck_def record_defs log_ok_def[of "_ # _"] float64_of_int_nonneg split: option.split)

lemma gstep_log: "gstep c l = Some (c', ms) \<Longrightarrow> log_ok ms"
  by (cases l)
     (auto simp: grpc_SendBatch_def recv_error_def grpc_connect_def handleAck_counts(4) Let_def
       split: if_splits nat.splits reconnect_pc.splits option.splits dial_outcome.splits)

lemma grun_log: "grun c ls = Some (c', ms) \<Longrightarrow> log_ok ms"
  by (induction ls arbitrary: c ms) (auto split: option.splits prod.splits dest: gstep_log)

subsection \<open>Properties\<close>

text \<open>The steps with which a disconnected client reconnects, from where its loop stands.\<close>

definition finish_loop :: "reconnect_pc \<Rightarrow> glabel list" where
  "finish_loop pc =
     (case pc of
        RcTop _ \<Rightarrow> [GTop, GWaited, GConnect DialOk]
      | RcWaiting _ \<Rightarrow> [GWaited, GConnect DialOk]
      | RcDialing _ \<Rightarrow> [GConnect DialOk]
      | _ \<Rightarrow> [GStart, GTop, GWaited, GConnect DialOk])"

lemma due_reconnects:
  assumes "gc_invar c" and "reconnect_due c" and "\<not> gc_ctxDone c" and "\<not> gc_connected c"
  shows "\<exists>c' ms. grun c (finish_loop (gc_loop c)) = Some (c', ms) \<and> gc_connected c' \<and>
    gc_receivers c' = gc_receivers c @ [gc_opened c]"
proof (cases "gc_loop c")
  case RcIdle
  with assms have "\<not> gc_reconnecting c" "0 < gc_spawned c"
    by (auto simp: gc_invar_def reconnect_due_def loop_busy_def)
  then obtain n where "gc_spawned c = Suc n" by (cases "gc_spawned c") auto
  with RcIdle \<open>\<not> gc_reconnecting c\<close> assms show ?thesis
    by (simp add: finish_loop_def grpc_connect_def Let_def)
next
  case RcReturning
  with assms show ?thesis by (simp add: reconnect_due_def)
qed (use assms in \<open>simp_all add: finish_loop_def grpc_connect_def Let_def\<close>)

text \<open>C16: A client that has lost its stream comes back: in every interleaving of senders, receivers,
  rotation and reconnect loops in which no failure is reported while a loop is returning, a
  client that is neither closed nor connected still has a goroutine that reconnects it, and that
  goroutine's own steps and one successful dial end with a new stream and a new receiver.\<close>

theorem lost_stream_is_reopened:
  assumes "grpc_NewClient cfg DialOk = (Inr c, ms)" and "timely_run c ls"
    and "grun c ls = Some (c', ms')" and "\<not> gc_ctxDone c'" and "\<not> gc_connected c'"
  shows "\<exists>c'' ms''. grun c' (finish_loop (gc_loop c')) = Some (c'', ms'') \<and> gc_connected c'' \<and>
    gc_receivers c'' = gc_receivers c' @ [gc_opened c']"
proof -
  have c: "gc_invar c" "gc_connected c" "gc_loop c = RcIdle"
    using grpc_NewClient_invar[OF assms(1)] by auto
  then have "reconnect_due c" by (simp add: reconnect_due_def)
  with timely_run_reconnect_due[OF c(1) _ assms(2,3)] grun_invar[OF c(1) assms(3)] assms(4,5)
  show ?thesis using due_reconnects by blast
qed

definition sample_forwarder :: CloudForwarder where
  "sample_forwarder = (cfg_CloudForwarder default_config)\<lparr>Cloud_Enabled := True, ServerAddr := ''cloud:443''\<rparr>"

definition sample_client :: GrpcClient where
  "sample_client =
     \<lparr>gc_cfg = sample_forwarder, gc_conn = True, gc_stream = Some 0, gc_connected = True,
      gc_ctxDone = False, gc_rotateTimer = False, gc_reconnecting = False, gc_receivers = [0],
      gc_opened = 1, gc_spawned = 0, gc_loop = RcIdle\<rparr>"

lemma sample_client_new: "grpc_NewClient sample_forwarder DialOk = (Inr sample_client, SetGRPCConnected True)"
  by (simp add: grpc_NewClient_def grpc_connect_def sample_forwarder_def default_config_def sample_client_def
      resetRotationTimer_def stopRotationTimer_def Let_def)

theorem lost_stream_is_reopened_witness:
  "\<exists>c' ms' c'' ms''. grun sample_client [GSend False 0 [] 1, GStart] = Some (c', ms') \<and>
     \<not> gc_connected c' \<and> grun c' (finish_loop (gc_loop c')) = Some (c'', ms'') \<and> gc_connected c''"
proof -
  obtain c' ms' where r: "grun sample_client [GSend False 0 [] 1, GStart] = Some (c', ms')"
    "\<not> gc_ctxDone c'" "\<not> gc_connected c'"
    by (simp add: sample_client_def grpc_SendBatch_def Let_def)
  have "timely_run sample_client [GSend False 0 [] 1, GStart]"
    by (simp add: sample_client_def grpc_SendBatch_def Let_def timely_def reports_failure_def)
  from lost_stream_is_reopened[OF sample_client_new this r] r show ?thesis by blast
qed

text \<open>C17: The reconnection can be lost: take any run of a client without a rotation interval that has
  not been closed, at a moment when its reconnect loop has succeeded and is returning and no
  further reconnect is spawned. If any receiver reports a failure just then, and the reconnect it
  starts runs before the loop has returned, that one finds the loop still marked as running and
  gives up. From there on nothing reconnects the client: however it goes on, until another
  receiver reports a failure or the client is closed, every batch is refused.\<close>

theorem reconnect_can_be_lost:
  assumes "grpc_NewClient cfg DialOk = (Inr c, ms)" and "StreamRotateInterval cfg \<le> 0"
    and "grun c ls = Some (c1, ms1)" and "gc_loop c1 = RcReturning" and "gc_spawned c1 = 0"
    and "\<not> gc_ctxDone c1" and "i \<in> set (gc_receivers c1)"
  shows "\<exists>c2 ms2. grun c1 [GRecvErr i eof, GStart, GReturn] = Some (c2, ms2) \<and>
    gc_receivers c2 = remove1 i (gc_receivers c1) \<and>
    (\<forall>ls' c3 ms3. list_all no_news ls' \<longrightarrow> grun c2 ls' = Some (c3, ms3) \<longrightarrow>
       (\<forall>ok now evs sq. fst (snd (grpc_SendBatch c3 ok now evs sq)) = Some NotConnected))"
proof -
  have c: "gc_invar c" "gc_cfg c = cfg" using grpc_NewClient_invar[OF assms(1)] by auto
  have "\<not> gc_rotateTimer c"
    using assms(1,2) by (auto simp: grpc_NewClient_def grpc_connect_def resetRotationTimer_def
        stopRotationTimer_def Let_def split: if_splits)
  then have t: "\<not> gc_rotateTimer c1" using grun_no_timer[OF _ _ assms(3)] assms(2) c(2) by blast
  have inv: "gc_invar c1" using c(1) assms(3) by (rule grun_invar)
  from abandoned_by_late_failure[OF inv assms(4-6) t assms(7), of eof] obtain c2 ms2
    where c2: "grun c1 [GRecvErr i eof, GStart, GReturn] = Some (c2, ms2)" "abandoned c2"
      "gc_receivers c2 = remove1 i (gc_receivers c1)" by blast
  have "fst (snd (grpc_SendBatch c3 ok now evs sq)) = Some NotConnected"
    if "list_all no_news ls'" and "grun c2 ls' = Some (c3, ms3)" for ls' c3 ms3 ok now evs sq
    using abandoned_run[OF c2(2) that(2,1)] by (rule abandoned_refuses)
  with c2 show ?thesis by blast
qed

theorem reconnect_can_be_lost_witness:
  "\<exists>c1 ms1 c2 ms2. grun sample_client [GRecvErr 0 True, GStart, GTop, GWaited, GConnect DialOk] = Some (c1, ms1) \<and>
     gc_connected c1 \<and> grun c1 [GRecvErr 1 False, GStart, GReturn] = Some (c2, ms2) \<and> gc_receivers c2 = [] \<and>
     fst (snd (grpc_SendBatch c2 True 0 [] 1)) = Some NotConnected"
proof -
  have i: "StreamRotateInterval sample_forwarder \<le> 0" by (simp add: sample_forwarder_def default_config_def)
  obtain c1 ms1 where r: "grun sample_client [GRecvErr 0 True, GStart, GTop, GWaited, GConnect DialOk] = Some (c1, ms1)"
    and s: "gc_loop c1 = RcReturning" "gc_spawned c1 = 0" "\<not> gc_ctxDone c1" "gc_receivers c1 = [1]" "gc_connected c1"
    by (simp add: sample_client_def recv_error_def grpc_connect_def resetRotationTimer_def
        stopRotationTimer_def Let_def)
  have "1 \<in> set (gc_receivers c1)" using s(4) by simp
  from reconnect_can_be_lost[OF sample_client_new i r s(1-3) this, of False] obtain c2 ms2
    where c2: "grun c1 [GRecvErr 1 False, GStart, GReturn] = Some (c2, ms2)" "gc_receivers c2 = []"
      "\<forall>ls' c3 ms3. list_all no_news ls' \<longrightarrow> grun c2 ls' = Some (c3, ms3) \<longrightarrow>
        (\<forall>ok now evs sq. fst (snd (grpc_SendBatch c3 ok now evs sq)) = Some NotConnected)"
    using s(4) by auto
  from c2(3)[rule_format, of "[]" c2 "[]"] have "fst (snd (grpc_SendBatch c2 True 0 [] 1)) = Some NotConnected"
    by simp
  with r s(5) c2(1,2) show ?thesis by blast
qed

text \<open>One failed round of the reconnect loop, and several of them.\<close>

definition failed_round :: "glabel list" where
  "failed_round = [GTop, GWaited, GConnect DialStreamFails]"

lemma grun_append:
  "grun c (ls @ ls') =
     (case grun c ls of
        None \<Rightarrow> None
      | Some (c1, ms1) \<Rightarrow> (case grun c1 ls' of None \<Rightarrow> None | Some (c2, ms2) \<Rightarrow> Some (c2, ms1 @ ms2)))"
  by (induction ls arbitrary: c) (auto split: option.split)

lemma failed_round_run:
  assumes "gc_loop c = RcTop d" and "\<not> gc_ctxDone c"
  shows "grun c failed_round =
    Some (c\<lparr>gc_conn := True, gc_loop := RcTop (next_delay (max_delay (gc_cfg c)) d)\<rparr>, RecordGRPCReconnect)"
  using assms by (simp add: failed_round_def grpc_connect_def)

lemma failed_rounds_run:
  assumes "gc_loop c = RcTop d" and "\<not> gc_ctxDone c"
  shows "\<exists>c' ms. grun c (concat (replicate k failed_round)) = Some (c', ms) \<and>
    gc_loop c' = RcTop ((next_delay (max_delay (gc_cfg c)) ^^ k) d) \<and> \<not> gc_ctxDone c' \<and>
    gc_cfg c' = gc_cfg c \<and> count_inc GRPCReconnects ms = k"
proof (induction k)
  case (Suc k)
  then obtain c' ms where IH: "grun c (concat (replicate k failed_round)) = Some (c', ms)"
    "gc_loop c' = RcTop ((next_delay (max_delay (gc_cfg c)) ^^ k) d)" "\<not> gc_ctxDone c'"
    "gc_cfg c' = gc_cfg c" "count_inc GRPCReconnects ms = k" by blast
  have "concat (replicate (Suc k) failed_round) = concat (replicate k failed_round) @ failed_round"
    by (induction k) simp_all
  then show ?case
    using IH failed_round_run[OF IH(2,3)] by (simp add: grun_append record_defs)
qed (use assms in simp)

text \<open>C32: The back-off has a closed form when both configured times are positive and at most 4611686018
  seconds, so that doubling stays in the 64-bit range: the first wait is \<open>ReconnectDelay\<close> seconds,
  even when that is more than \<open>MaxReconnectSec\<close>, and after \<open>k > 0\<close> failed attempts the loop waits
  \<open>min MaxReconnectSec (ReconnectDelay * 2 ^ k)\<close> seconds, for any \<open>k\<close>; it has counted \<open>k\<close> attempts.\<close>

theorem reconnect_backoff:
  assumes "gc_loop c = RcTop (initial_delay (gc_cfg c))" and "\<not> gc_ctxDone c"
    and "0 < ReconnectDelay (gc_cfg c)" and "ReconnectDelay (gc_cfg c) \<le> 4611686018"
    and "0 < MaxReconnectSec (gc_cfg c)" and "MaxReconnectSec (gc_cfg c) \<le> 4611686018"
  shows "\<exists>c' ms. grun c (concat (replicate k failed_round)) = Some (c', ms) \<and>
    gc_loop c' = RcTop ((if k = 0 then ReconnectDelay (gc_cfg c)
      else min (MaxReconnectSec (gc_cfg c)) (ReconnectDelay (gc_cfg c) * 2 ^ k)) * second) \<and>
    count_inc GRPCReconnects ms = k"
proof -
  let ?d = "ReconnectDelay (gc_cfg c)" and ?m = "MaxReconnectSec (gc_cfg c)"
  have d: "initial_delay (gc_cfg c) = ?d * second" and m: "max_delay (gc_cfg c) = ?m * second"
    using assms(3-6) by (simp_all add: initial_delay_def max_delay_def seconds_in_range)
  have n: "(next_delay (max_delay (gc_cfg c)) ^^ k) (initial_delay (gc_cfg c)) =
      (if k = 0 then ?d else min ?m (?d * 2 ^ k)) * second"
  proof (cases k)
    case (Suc j)
    have "(next_delay (?m * second) ^^ Suc j) (?d * second) = min (?m * second) (?d * second * 2 ^ Suc j)"
      using assms(3-6) by (intro next_delay_Suc_iter) (simp_all add: second_def max_int64_def)
    also have "\<dots> = min ?m (?d * 2 ^ Suc j) * second"
      by (simp add: min_mult_distrib_right second_def mult.commute mult.left_commute)
    finally show ?thesis unfolding d m Suc by simp
  qed (simp add: d)
  show ?thesis using failed_rounds_run[OF assms(1,2), of k] unfolding n by blast
qed

theorem reconnect_backoff_witness:
  "\<exists>c' ms. grun (sample_client\<lparr>gc_loop := RcTop (initial_delay sample_forwarder)\<rparr>)
      (concat (replicate 9 failed_round)) = Some (c', ms) \<and>
    gc_loop c' = RcTop (60 * second) \<and> count_inc GRPCReconnects ms = 9"
proof -
  let ?c = "sample_client\<lparr>gc_loop := RcTop (initial_delay sample_forwarder)\<rparr>"
  have f: "gc_cfg ?c = sample_forwarder" "\<not> gc_ctxDone ?c" by (simp_all add: sample_client_def)
  have g: "ReconnectDelay sample_forwarder = 5" "MaxReconnectSec sample_forwarder = 60"
    by (simp_all add: sample_forwarder_def default_config_def)
  show ?thesis
    using reconnect_backoff[of ?c 9] unfolding f(1) g using f(2) by simp
qed

text \<open>One call of \<open>SendBatch\<close>: a batch is put on the stream exactly when the call succeeds, which
  needs a connected client; it carries the events and the number it was given and never a source
  identifier; a failed send marks the client as disconnected and starts one reconnect.\<close>

theorem SendBatch_outcome:
  assumes "grpc_SendBatch c ok now evs sq = (c', err, sent, ms)"
  shows "(sent = None \<longleftrightarrow> err \<noteq> None) \<and> (err = None \<longleftrightarrow> gc_connected c \<and> ok) \<and>
    (\<forall>b. sent = Some b \<longrightarrow> eb_Events b = evs \<and> eb_BatchSequence b = sq \<and> eb_SourceId b = [] \<and> c' = c) \<and>
    (err = Some SendFailed \<longrightarrow> \<not> gc_connected c' \<and> gc_spawned c' = gc_spawned c + 1) \<and> log_ok ms"
  using assms by (rule grpc_SendBatch_outcome)

theorem SendBatch_outcome_witness:
  "fst (snd (snd (grpc_SendBatch sample_client True 9 [] 4))) =
     Some \<lparr>eb_Events = [], eb_BatchTimestampUs = 9, eb_BatchSequence = 4, eb_SourceId = []\<rparr> \<and>
   fst (snd (grpc_SendBatch sample_client True 9 [] 4)) = None"
proof -
  obtain c' err sent ms where r: "grpc_SendBatch sample_client True 9 [] 4 = (c', err, sent, ms)"
    by (cases "grpc_SendBatch sample_client True 9 [] 4") auto
  have s: "sent = Some \<lparr>eb_Events = [], eb_BatchTimestampUs = 9, eb_BatchSequence = 4, eb_SourceId = []\<rparr>"
    using r by (simp add: grpc_SendBatch_def Let_def sample_client_def)
  with SendBatch_outcome[OF r] r show ?thesis by simp
qed

end
