(* ===== verification/Mqtt_Client.thy ===== *)
theory Mqtt_Client
  imports Metrics Config Go_Net
begin

text \<open>
  The MQTT client of \<^verbatim>\<open>internal/mqtt/client.go\<close>. The Paho library, the random source, the file
  system and the certificate parser are arguments: an operation that reaches one of them takes
  its outcome. Modelled are the checks and options of \<open>NewClient\<close>, the generated identifier, the
  subscription on every connect, and the one-shot result that \<open>Connect\<close> waits for.
\<close>

subsection \<open>Client identifiers\<close>

definition hex_Encode :: "byte list \<Rightarrow> string" where
  "hex_Encode bs = concat (map (\<lambda>b. [hex_digit (unat b div 16), hex_digit (unat b mod 16)]) bs)"

definition generateClientID :: "byte list \<Rightarrow> string" where
  "generateClientID random =
     (let uuid1 = random[6 := (random ! 6 AND 0x0F) OR 0x40];
          uuid2 = uuid1[8 := (uuid1 ! 8 AND 0x3F) OR 0x80];
          encoded = hex_Encode uuid2
      in ''entropy-rx-'' @ take 8 encoded @ ''-'' @ take 4 (drop 8 encoded) @ ''-'' @
         take 4 (drop 12 encoded) @ ''-'' @ take 4 (drop 16 encoded) @ ''-'' @
         take 12 (drop 20 encoded))"

subsection \<open>Construction\<close>

datatype mqtt_error =
    BrokerURLMissing | TopicMissing | GenerateIDFailed
  | ReadCAFailed | ParseCAFailed
  | ClientNotInitialized | ConnectTimedOut | ConnectFailed | InitialSubscribeTimeout
  | SubscribeTimeout string | SubscribeRejected string

definition isTLSBroker :: "string \<Rightarrow> bool" where
  "isTLSBroker brokerURL =
     (let lower = ToLower brokerURL
      in HasPrefix lower ''ssl://'' \<or> HasPrefix lower ''tls://'' \<or>
         HasPrefix lower ''mqtts://'' \<or> HasPrefix lower ''tcps://'')"

datatype root_CAs = CustomCA string | SystemCAs | EmptyPool

definition createMQTTTLSConfig ::
    "(string \<Rightarrow> string option) \<Rightarrow> (string \<Rightarrow> bool) \<Rightarrow> bool \<Rightarrow> string \<Rightarrow> mqtt_error + root_CAs" where
  "createMQTTTLSConfig read_file pem_ok system_ok caFile =
     (if caFile \<noteq> [] then
        (case read_file caFile of
           None \<Rightarrow> Inl ReadCAFailed
         | Some caCert \<Rightarrow> if \<not> pem_ok caCert then Inl ParseCAFailed else Inr (CustomCA caCert))
      else Inr (if system_ok then SystemCAs else EmptyPool))"

record paho_options =
  opt_Broker :: string
  opt_ClientID :: string
  opt_AutoReconnect :: bool
  opt_CleanSession :: bool
  opt_KeepAlive :: int
  opt_PingTimeout :: int
  opt_Username :: "string option"
  opt_Password :: "string option"
  opt_TLS :: "root_CAs option"

text \<open>
  \<open>mc_initialResult\<close> is what was put on the one-shot channel before it was closed, \<open>mc_resultTaken\<close>
  whether a caller of \<open>Connect\<close> has received it; the closed channel then yields nothing more.
\<close>

record MqttClient =
  mc_config :: MQTTConfig
  mc_options :: paho_options
  mc_initialResult :: "mqtt_error option option"
  mc_resultTaken :: bool
  mc_connectAttempts :: u32

definition mqtt_NewClient ::
    "(string \<Rightarrow> string option) \<Rightarrow> (string \<Rightarrow> bool) \<Rightarrow> bool \<Rightarrow> byte list option \<Rightarrow> MQTTConfig \<Rightarrow>
     mqtt_error + MqttClient" where
  "mqtt_NewClient read_file pem_ok system_ok random config =
     (if BrokerURL config = [] then Inl BrokerURLMissing
      else if Topics config = [] then Inl TopicMissing
      else
        let id = (if ClientID config = [] then map_option generateClientID random
                  else Some (ClientID config))
        in case id of
             None \<Rightarrow> Inl GenerateIDFailed
           | Some clientID \<Rightarrow>
               let config1 = config\<lparr>ClientID := clientID\<rparr>;
                   config2 = (if QoS config1 > 1 then config1\<lparr>QoS := 1\<rparr> else config1);
                   opts = \<lparr>opt_Broker = BrokerURL config2, opt_ClientID = ClientID config2,
                           opt_AutoReconnect = True, opt_CleanSession = False,
                           opt_KeepAlive = 20 * second, opt_PingTimeout = 5 * second,
                           opt_Username = (if Username config2 \<noteq> [] then Some (Username config2) else None),
                           opt_Password = (if Password config2 \<noteq> [] then Some (Password config2) else None),
                           opt_TLS = None\<rparr>;
                   mk = (\<lambda>opts'. \<lparr>mc_config = config2, mc_options = opts',
                                  mc_initialResult = None, mc_resultTaken = False,
                                  mc_connectAttempts = 0\<rparr>)
               in if isTLSBroker (BrokerURL config2) then
                    (case createMQTTTLSConfig read_file pem_ok system_ok (MQTT_TLSCAFile config2) of
                       Inl err \<Rightarrow> Inl err
                     | Inr cas \<Rightarrow> Inr (mk (opts\<lparr>opt_TLS := Some cas\<rparr>)))
                  else Inr (mk opts))"

subsection \<open>Connections\<close>

text \<open>What the library reports for one subscription.\<close>

datatype sub_outcome = SubOk | SubTimeout | SubError

fun subscribe :: "(string \<Rightarrow> sub_outcome) \<Rightarrow> string list \<Rightarrow> mqtt_error option" where
  "subscribe out [] = None"
| "subscribe out (topic # topics) =
     (case out topic of
        SubTimeout \<Rightarrow> Some (SubscribeTimeout topic)
      | SubError \<Rightarrow> Some (SubscribeRejected topic)
      | SubOk \<Rightarrow> subscribe out topics)"

definition completeInitialSubscription :: "MqttClient \<Rightarrow> mqtt_error option \<Rightarrow> MqttClient" where
  "completeInitialSubscription c err =
     (case mc_initialResult c of
        None \<Rightarrow> c\<lparr>mc_initialResult := Some err\<rparr> | Some _ \<Rightarrow> c)"

definition handleConnect :: "MqttClient \<Rightarrow> (string \<Rightarrow> sub_outcome) \<Rightarrow> MqttClient \<times> metric_log" where
  "handleConnect c out =
     (case subscribe out (Topics (mc_config c)) of
        Some err \<Rightarrow> (completeInitialSubscription c (Some err), SetMQTTConnected False)
      | None \<Rightarrow>
          let c1 = c\<lparr>mc_connectAttempts := mc_connectAttempts c + 1\<rparr>;
              ms = (if sint (mc_connectAttempts c1) > 1 then RecordMQTTReconnect else [])
          in (completeInitialSubscription c1 None,
              ms @ SetMQTTConnected True @ RecordMQTTConnect))"

definition connectionLost :: metric_log where
  "connectionLost = SetMQTTConnected False @ RecordMQTTDisconnect"

datatype token_outcome = TokenTimeout | TokenError | TokenOk

text \<open>
  \<open>Connect\<close> returns the library's error, or else the one-shot result if it is there before the
  timer (\<open>timerFirst\<close>) fires; a receive from the closed channel whose result is already taken
  counts as success. \<open>None\<close> is the nil client.
\<close>

definition mqtt_Connect ::
    "MqttClient option \<Rightarrow> token_outcome \<Rightarrow> bool \<Rightarrow> MqttClient option \<times> mqtt_error option \<times> metric_log" where
  "mqtt_Connect client token timerFirst =
     (case client of
        None \<Rightarrow> (None, Some ClientNotInitialized, [])
      | Some c \<Rightarrow>
          (case token of
             TokenTimeout \<Rightarrow> (Some c, Some ConnectTimedOut, SetMQTTConnected False)
           | TokenError \<Rightarrow> (Some c, Some ConnectFailed, SetMQTTConnected False)
           | TokenOk \<Rightarrow>
               if timerFirst \<or> mc_initialResult c = None
               then (Some c, Some InitialSubscribeTimeout, SetMQTTConnected False)
               else if mc_resultTaken c then (Some c, None, [])
               else
                 let c1 = c\<lparr>mc_resultTaken := True\<rparr>
                 in case the (mc_initialResult c) of
                      None \<Rightarrow> (Some c1, None, [])
                    | Some err \<Rightarrow> (Some c1, Some err, SetMQTTConnected False)))"

definition mqtt_Close :: "MqttClient option \<Rightarrow> bool \<Rightarrow> metric_log" where
  "mqtt_Close client connectionOpen =
     SetMQTTConnected False @
     (if client \<noteq> None \<and> connectionOpen then RecordMQTTDisconnect else [])"

fun connects :: "MqttClient \<Rightarrow> (string \<Rightarrow> sub_outcome) list \<Rightarrow> MqttClient \<times> metric_log" where
  "connects c [] = (c, [])"
| "connects c (out # outs) =
     (case handleConnect c out of (c1, ms1) \<Rightarrow>
        case connects c1 outs of (c2, ms2) \<Rightarrow> (c2, ms1 @ ms2))"

lemma connects_log: "log_ok (snd (connects c outs))"
proof (induction outs arbitrary: c)
  case (Cons out outs)
  have "log_ok (snd (handleConnect c out))" by (simp add: handleConnect_def Let_def split: option.split)
  with Cons show ?case by (simp add: case_prod_beta)
qed simp

lemma mqtt_client_log:
  "log_ok connectionLost" "log_ok (mqtt_Close client isOpen)" "log_ok (snd (snd (mqtt_Connect client token timer)))"
  by (auto simp: connectionLost_def mqtt_Close_def mqtt_Connect_def Let_def
      split: option.split token_outcome.split)

subsection \<open>Properties\<close>

lemma length_hex_Encode [simp]: "length (hex_Encode bs) = 2 * length bs"
  unfolding hex_Encode_def by (induction bs) simp_all

lemma nth_hex_Encode:
  "i < length bs \<Longrightarrow>
     hex_Encode bs ! (2 * i) = hex_digit (unat (bs ! i) div 16) \<and>
     hex_Encode bs ! (2 * i + 1) = hex_digit (unat (bs ! i) mod 16)"
  unfolding hex_Encode_def
proof (induction bs arbitrary: i)
  case (Cons b bs)
  then show ?case by (cases i) simp_all
qed simp

lemma hex_digit_values [simp]:
  "hex_digit 4 = CHR ''4''" "hex_digit 8 = CHR ''8''" "hex_digit 9 = CHR ''9''"
  "hex_digit 10 = CHR ''a''" "hex_digit 11 = CHR ''b''"
  by (simp_all add: hex_digit_def char_of_def bit_Suc_0_iff)

text \<open>The identifier is a version 4 UUID of the standard variant after the prefix.\<close>


lemma unat_drop_bit_div: "unat (drop_bit n (b :: byte)) = unat b div 2 ^ n"
  by (simp only: unat_drop_bit_eq) (simp only: drop_bit_eq_div)

lemma version_nibble: "unat (((b :: byte) AND 0x0F) OR 0x40) div 16 = 4"
proof -
  have "unat (drop_bit 4 ((b AND 0x0F) OR 0x40)) = unat (4 :: byte)"
    by (rule arg_cong[where f = unat], rule bit_word_eqI)
       (auto simp: bit_simps bit_numeral_rec less_Suc_eq numeral_eq_Suc)
  then show ?thesis unfolding unat_drop_bit_div by simp
qed

lemma variant_bits: "unat (((b :: byte) AND 0x3F) OR 0x80) div 64 = 2"
proof -
  have "unat (drop_bit 6 ((b AND 0x3F) OR 0x80)) = unat (2 :: byte)"
    by (rule arg_cong[where f = unat], rule bit_word_eqI)
       (auto simp: bit_simps bit_numeral_rec less_Suc_eq numeral_eq_Suc)
  then show ?thesis unfolding unat_drop_bit_div by simp
qed

lemma variant_nibble: "unat (((b :: byte) AND 0x3F) OR 0x80) div 16 \<in> {8, 9, 10, 11}"
proof -
  have "unat (((b :: byte) AND 0x3F) OR 0x80) div 16 div 4 = 2"
    using variant_bits[of b] by (simp add: div_mult2_eq[symmetric])
  then have "8 \<le> unat (((b :: byte) AND 0x3F) OR 0x80) div 16"
    "unat (((b :: byte) AND 0x3F) OR 0x80) div 16 < 12"
    by linarith+
  then show ?thesis by auto
qed

lemma generateClientID_shape:
  assumes "length r = 16"
  shows "length (generateClientID r) = 47 \<and> prefix ''entropy-rx-'' (generateClientID r) \<and>
    generateClientID r ! 25 = CHR ''4'' \<and>
    generateClientID r ! 30 \<in> {CHR ''8'', CHR ''9'', CHR ''a'', CHR ''b''} \<and>
    (\<forall>i \<in> {19, 24, 29, 34}. generateClientID r ! i = CHR ''-'')"
proof -
  define u where "u = r[6 := (r ! 6 AND 0x0F) OR 0x40, 8 := (r ! 8 AND 0x3F) OR 0x80]"
  define e where "e = hex_Encode u"
  have len: "length u = 16" "length e = 32" using assms by (simp_all add: u_def e_def)
  have g: "generateClientID r = ''entropy-rx-'' @ take 8 e @ ''-'' @ take 4 (drop 8 e) @ ''-'' @
     take 4 (drop 12 e) @ ''-'' @ take 4 (drop 16 e) @ ''-'' @ take 12 (drop 20 e)"
    by (simp add: generateClientID_def Let_def e_def u_def)
  have u6: "u ! 6 = (r ! 6 AND 0x0F) OR 0x40" and u8: "u ! 8 = (r ! 8 AND 0x3F) OR 0x80"
    using assms by (simp_all add: u_def)
  have "e ! 12 = hex_digit 4"
    using nth_hex_Encode[of 6 u] len version_nibble[of "r ! 6"] by (simp add: e_def u6)
  moreover have "e ! 16 = hex_digit (unat (u ! 8) div 16)"
    using nth_hex_Encode[of 8 u] len by (simp add: e_def)
  moreover have "hex_digit (unat (u ! 8) div 16) \<in> {CHR ''8'', CHR ''9'', CHR ''a'', CHR ''b''}"
    using variant_nibble[of "r ! 8"] unfolding u8 by auto
  ultimately show ?thesis
    unfolding g using len(2) by (simp add: nth_append)
qed

text \<open>What \<open>NewClient\<close> guarantees of a client it returns.\<close>

lemma createMQTTTLSConfig_Inr:
  "createMQTTTLSConfig rf pem sys ca = Inr cas \<Longrightarrow> ca \<noteq> [] \<Longrightarrow>
     \<exists>cert. rf ca = Some cert \<and> pem cert \<and> cas = CustomCA cert"
  by (auto simp: createMQTTTLSConfig_def split: option.splits if_splits)

lemma mqtt_NewClient_ok:
  assumes "mqtt_NewClient rf pem sys random cfg = Inr c"
  shows "Topics (mc_config c) = Topics cfg \<and> Topics cfg \<noteq> [] \<and> BrokerURL (mc_config c) = BrokerURL cfg \<and>
    BrokerURL cfg \<noteq> [] \<and> QoS (mc_config c) = (if QoS cfg > 1 then 1 else QoS cfg) \<and>
    opt_ClientID (mc_options c) =
      (if ClientID cfg = [] then generateClientID (the random) else ClientID cfg) \<and>
    (opt_TLS (mc_options c) \<noteq> None \<longleftrightarrow> isTLSBroker (BrokerURL cfg)) \<and>
    mc_initialResult c = None \<and> \<not> mc_resultTaken c \<and> mc_connectAttempts c = 0"
  using assms
  by (auto simp: mqtt_NewClient_def Let_def split: if_splits option.splits sum.splits)

lemma subscribe_None: "subscribe out topics = None \<longleftrightarrow> (\<forall>t \<in> set topics. out t = SubOk)"
  by (induction topics) (auto split: sub_outcome.split)

lemma handleConnect_frame:
  "mc_config (fst (handleConnect c out)) = mc_config c"
  "mc_resultTaken (fst (handleConnect c out)) = mc_resultTaken c"
  "mc_initialResult (fst (handleConnect c out)) =
     (case mc_initialResult c of
        None \<Rightarrow> Some (subscribe out (Topics (mc_config c))) | Some r \<Rightarrow> Some r)"
  by (auto simp: handleConnect_def completeInitialSubscription_def Let_def split: option.split)

lemma connects_result:
  assumes "mc_initialResult c = Some r"
  shows "mc_initialResult (fst (connects c outs)) = Some r"
  using assms
proof (induction outs arbitrary: c)
  case (Cons out outs)
  then show ?case using handleConnect_frame(3)[of c out] by (simp add: case_prod_beta)
qed simp

lemma connects_taken: "mc_resultTaken (fst (connects c outs)) = mc_resultTaken c"
  by (induction outs arbitrary: c) (simp_all add: case_prod_beta handleConnect_frame)

text \<open>The waiting caller gets the outcome of the first connection, whatever follows it.\<close>

lemma connects_first:
  assumes "mc_initialResult c = None"
  shows "mc_initialResult (fst (connects c (out # outs))) =
    Some (subscribe out (Topics (mc_config c)))"
proof -
  have "mc_initialResult (fst (handleConnect c out)) = Some (subscribe out (Topics (mc_config c)))"
    using assms handleConnect_frame(3)[of c out] by simp
  from connects_result[OF this] show ?thesis by (simp add: case_prod_beta)
qed

definition good :: "MqttClient \<Rightarrow> (string \<Rightarrow> sub_outcome) \<Rightarrow> bool" where
  "good c out \<longleftrightarrow> subscribe out (Topics (mc_config c)) = None"

lemma complete_attempts [simp]:
  "mc_connectAttempts (completeInitialSubscription c e) = mc_connectAttempts c"
  by (simp add: completeInitialSubscription_def split: option.split)

lemma handleConnect_attempts:
  "mc_connectAttempts (fst (handleConnect c out)) =
     mc_connectAttempts c + (if good c out then 1 else 0)"
  by (simp add: handleConnect_def good_def Let_def split: option.split)

lemma handleConnect_counts:
  "count_inc MQTTConnects (snd (handleConnect c out)) = (if good c out then 1 else 0)"
  "count_inc MQTTReconnects (snd (handleConnect c out)) =
     (if good c out \<and> sint (mc_connectAttempts c + 1) > 1 then 1 else 0)"
  by (simp_all add: handleConnect_def good_def Let_def record_defs split: option.split)

lemma attempts_step:
  assumes "unat (w :: u32) + 1 < 2 ^ 31"
  shows "unat (w + 1) = unat w + 1" and "sint (w + 1) > 1 \<longleftrightarrow> unat w \<noteq> 0"
proof -
  show un: "unat (w + 1) = unat w + 1"
    using assms by (intro unat_add_lem[THEN iffD1, THEN trans]) simp_all
  have "int (unat w + 1) < 2 ^ 31"
    using assms of_nat_less_iff[where ?'a = int, of "unat w + 1" "2 ^ 31"]
    by (simp only: of_nat_power of_nat_numeral)
  then have "signed_take_bit 31 (int (unat w + 1)) = int (unat w + 1)"
    by (intro signed_take_bit_int_eq_self) linarith+
  then have "sint (w + 1) = int (unat w) + 1"
    unfolding sint_uint uint_nat un by simp
  then show "sint (w + 1) > 1 \<longleftrightarrow> unat w \<noteq> 0" by linarith
qed

lemma good_cong: "mc_config c = mc_config c' \<Longrightarrow> good c = good c'"
  by (simp add: good_def fun_eq_iff)

text \<open>Every successful connection after the first one counts as a reconnection.\<close>

lemma connects_counts:
  assumes "unat (mc_connectAttempts c) + length outs < 2 ^ 31"
  shows "unat (mc_connectAttempts (fst (connects c outs))) =
      unat (mc_connectAttempts c) + length (filter (good c) outs) \<and>
    count_inc MQTTConnects (snd (connects c outs)) = length (filter (good c) outs) \<and>
    count_inc MQTTReconnects (snd (connects c outs)) =
      length (filter (good c) outs) - (if unat (mc_connectAttempts c) = 0 then 1 else 0)"
  using assms
proof (induction outs arbitrary: c)
  case (Cons out outs)
  define c1 where "c1 = fst (handleConnect c out)"
  have g: "good c1 = good c"
    unfolding c1_def by (rule good_cong) (rule handleConnect_frame(1))
  have small: "unat (mc_connectAttempts c) + 1 < 2 ^ 31" using Cons.prems by simp
  note st = attempts_step[OF small]
  have a1: "unat (mc_connectAttempts c1) = unat (mc_connectAttempts c) + (if good c out then 1 else 0)"
    using st(1) by (simp add: c1_def handleConnect_attempts)
  have IH: "unat (mc_connectAttempts (fst (connects c1 outs))) =
      unat (mc_connectAttempts c1) + length (filter (good c1) outs) \<and>
    count_inc MQTTConnects (snd (connects c1 outs)) = length (filter (good c1) outs) \<and>
    count_inc MQTTReconnects (snd (connects c1 outs)) =
      length (filter (good c1) outs) - (if unat (mc_connectAttempts c1) = 0 then 1 else 0)"
    using Cons.prems a1 by (intro Cons.IH) simp
  have run: "fst (connects c (out # outs)) = fst (connects c1 outs)"
    "snd (connects c (out # outs)) = snd (handleConnect c out) @ snd (connects c1 outs)"
    by (simp_all add: c1_def case_prod_beta)
  show ?case
    unfolding run count_inc_append handleConnect_counts using IH st(2) a1 g
    by (cases "good c out"; cases "unat (mc_connectAttempts c) = 0") simp_all
qed simp

subsection \<open>Results for the caller and the metrics\<close>

text \<open>C30: The waiting caller of \<open>Connect\<close> gets the outcome of the first connection and of no later
  one: whatever connections follow, the result is success exactly when every topic was subscribed
  on the first connection. A second call finds the result taken and reports success.\<close>

theorem connect_result_is_first:
  assumes "mqtt_NewClient read_file pem_ok system_ok random config = Inr c"
  shows "(mc_initialResult (fst (connects c (out # outs))) = Some None \<longleftrightarrow>
      (\<forall>t \<in> set (Topics config). out t = SubOk)) \<and>
    fst (snd (mqtt_Connect (Some (fst (connects c (out # outs)))) TokenOk False)) =
      subscribe out (Topics config) \<and>
    fst (snd (mqtt_Connect (fst (mqtt_Connect (Some (fst (connects c (out # outs)))) TokenOk False)) TokenOk False)) =
      None"
proof -
  let ?c = "fst (connects c (out # outs))"
  have c: "mc_initialResult c = None" "\<not> mc_resultTaken c" "Topics (mc_config c) = Topics config"
    using mqtt_NewClient_ok[OF assms] by auto
  have r: "mc_initialResult ?c = Some (subscribe out (Topics config))"
    using connects_first[OF c(1), of out outs] c(3) by simp
  have t: "\<not> mc_resultTaken ?c" using c(2) connects_taken[of c "out # outs"] by simp
  have "fst (snd (mqtt_Connect (Some ?c) TokenOk False)) = subscribe out (Topics config) \<and>
      fst (snd (mqtt_Connect (fst (mqtt_Connect (Some ?c) TokenOk False)) TokenOk False)) = None"
    by (cases "subscribe out (Topics config)")
       (simp_all add: mqtt_Connect_def Let_def r t del: connects.simps)
  with r show ?thesis by (simp add: subscribe_None del: connects.simps)
qed

definition sample_mqtt :: MQTTConfig where
  "sample_mqtt = (cfg_MQTT default_config)\<lparr>ClientID := ''gw''\<rparr>"

lemma sample_mqtt_new:
  "\<exists>c. mqtt_NewClient (\<lambda>_. None) (\<lambda>_. True) True None sample_mqtt = Inr c"
proof -
  have "\<not> isTLSBroker ''tcp://127.0.0.1:1883''" by code_simp
  then show ?thesis by (simp add: mqtt_NewClient_def sample_mqtt_def default_config_def Let_def)
qed

theorem connect_result_is_first_witness:
  "\<exists>c. mqtt_NewClient (\<lambda>_. None) (\<lambda>_. True) True None sample_mqtt = Inr c \<and>
     fst (snd (mqtt_Connect (Some (fst (connects c [\<lambda>_. SubTimeout, \<lambda>_. SubOk]))) TokenOk False)) =
       Some (SubscribeTimeout ''timestamps/channel/#'')"
proof -
  obtain c where c: "mqtt_NewClient (\<lambda>_. None) (\<lambda>_. True) True None sample_mqtt = Inr c"
    using sample_mqtt_new by blast
  have "subscribe (\<lambda>_. SubTimeout) (Topics sample_mqtt) = Some (SubscribeTimeout ''timestamps/channel/#'')"
    by (simp add: sample_mqtt_def default_config_def)
  with connect_result_is_first[OF c, of "\<lambda>_. SubTimeout" "[\<lambda>_. SubOk]"] c show ?thesis by metis
qed

text \<open>Over the first 2^31 connections the counters are exact: each connection with all
  subscriptions accepted counts as a connect, and each such connection but the first as a
  reconnect.\<close>

theorem connection_counters_exact:
  assumes "mqtt_NewClient read_file pem_ok system_ok random config = Inr c" and "length outs < 2 ^ 31"
  shows "count_inc MQTTConnects (snd (connects c outs)) =
      length (filter (\<lambda>out. subscribe out (Topics config) = None) outs) \<and>
    count_inc MQTTReconnects (snd (connects c outs)) =
      length (filter (\<lambda>out. subscribe out (Topics config) = None) outs) - 1"
proof -
  have c: "mc_connectAttempts c = 0" "Topics (mc_config c) = Topics config"
    using mqtt_NewClient_ok[OF assms(1)] by auto
  have "good c = (\<lambda>out. subscribe out (Topics config) = None)" by (simp add: good_def c(2) fun_eq_iff)
  with connects_counts[of c outs] assms(2) c(1) show ?thesis by simp
qed

theorem connection_counters_exact_witness:
  "\<exists>c. mqtt_NewClient (\<lambda>_. None) (\<lambda>_. True) True None sample_mqtt = Inr c \<and>
     count_inc MQTTConnects (snd (connects c [\<lambda>_. SubOk, \<lambda>_. SubError, \<lambda>_. SubOk])) = 2 \<and>
     count_inc MQTTReconnects (snd (connects c [\<lambda>_. SubOk, \<lambda>_. SubError, \<lambda>_. SubOk])) = 1"
proof -
  obtain c where c: "mqtt_NewClient (\<lambda>_. None) (\<lambda>_. True) True None sample_mqtt = Inr c"
    using sample_mqtt_new by blast
  have "length (filter (\<lambda>out. subscribe out (Topics sample_mqtt) = None)
      [\<lambda>_. SubOk, \<lambda>_. SubError, \<lambda>_. SubOk]) = 2"
    by (simp add: sample_mqtt_def default_config_def)
  moreover have "length [\<lambda>_ :: string. SubOk, \<lambda>_. SubError, \<lambda>_. SubOk] < 2 ^ 31" by simp
  ultimately show ?thesis using connection_counters_exact[OF c] c by (metis diff_add_inverse one_add_one)
qed

text \<open>A generated client identifier is the prefix followed by a version 4 UUID of the standard
  variant, whatever the 16 random bytes are.\<close>

theorem client_id_is_uuid4:
  assumes "length random = 16"
  shows "length (generateClientID random) = 47 \<and> prefix ''entropy-rx-'' (generateClientID random) \<and>
    generateClientID random ! 25 = CHR ''4'' \<and>
    generateClientID random ! 30 \<in> {CHR ''8'', CHR ''9'', CHR ''a'', CHR ''b''} \<and>
    (\<forall>i \<in> {19, 24, 29, 34}. generateClientID random ! i = CHR ''-'')"
  using assms by (rule generateClientID_shape)

theorem client_id_is_uuid4_witness:
  "generateClientID (replicate 16 0xFF) ! 25 = CHR ''4'' \<and> length (generateClientID (replicate 16 0xFF)) = 47"
  using client_id_is_uuid4[of "replicate 16 0xFF"] by simp

end
