(* ===== verification/Gateway.thy ===== *)
theory Gateway
  imports Collector Entropy_Service Metrics_Server Grpc_Client Mqtt_Client
begin

text \<open>
  The assembly of \<^verbatim>\<open>cmd/entropy-tdc-gateway/main.go\<close>: the two senders behind the collector (the local
  pool, and the pool mirrored to the cloud), the protobuf events with their own whitening, the
  retry loops, the address checks, and the order in which the parts are started and stopped,
  with the goroutines of the metrics server and of the connector beside it.
  What other goroutines and the network do to the gRPC client during a batch is the argument
  \<open>cloud_env\<close>, indexed by the batch's sequence number.
\<close>

subsection \<open>Protobuf events\<close>

definition whitenEvent :: "TDCEvent \<Rightarrow> byte list" where
  "whitenEvent evt = DualStageWhitening (PutUint64 (TdcTimestampPs evt))"

definition toProtoEvent :: "TDCEvent \<Rightarrow> PbTDCEvent \<times> metric_log" where
  "toProtoEvent evt =
     (let white = whitenEvent evt;
          (white1, ms) = (if length white \<noteq> 32
                          then ([], RecordEventDropped ''invalid_whitened_entropy'')
                          else (white, []))
      in (\<lparr>pb_RpiTimestampUs = RpiTimestampUs evt, pb_TdcTimestampPs = TdcTimestampPs evt,
           pb_Channel = Channel evt, pb_WhitenedEntropy = white1\<rparr>, ms))"

definition convertToProtoBatch :: "TDCEvent list \<Rightarrow> u32 \<Rightarrow> EntropyBatch" where
  "convertToProtoBatch events sequence =
     \<lparr>eb_Events = map (fst \<circ> toProtoEvent) events, eb_BatchTimestampUs = 0,
      eb_BatchSequence = sequence, eb_SourceId = ''entropy-tdc-gateway''\<rparr>"

subsection \<open>Senders\<close>

text \<open>The local sender of \<open>setupBatchCollector\<close>; \<open>dur\<close> is the measured duration in seconds.\<close>

definition local_sender :: "(u32 \<Rightarrow> rat) \<Rightarrow> WhitenedPool BatchSender" where
  "local_sender dur =
     \<lparr>bs_SendBatch = (\<lambda>pool events sequence.
        case AddBatch pool events of
          (pool', ms) \<Rightarrow>
            (pool', False, ms @ RecordBatch (int (length events)) (dur sequence) True [])),
      bs_IncrementDropped = (\<lambda>pool count. (pool, []))\<rparr>"

record cloudAwareForwarder =
  cf_pool :: WhitenedPool
  cf_client :: "GrpcClient option"
  cf_transmitted :: "EntropyBatch list"

record cloud_env =
  env_duration :: "u32 \<Rightarrow> rat"
  env_client :: "u32 \<Rightarrow> GrpcClient option \<Rightarrow> GrpcClient option"
  env_sendOk :: "u32 \<Rightarrow> bool"
  env_now :: "u32 \<Rightarrow> int"
  env_errorText :: "grpc_error \<Rightarrow> string"

text \<open>The plain adapter of a client; it keeps no local pool.\<close>

definition grpcForwarder_SendBatch ::
    "GrpcClient \<Rightarrow> bool \<Rightarrow> int \<Rightarrow> rat \<Rightarrow> (grpc_error \<Rightarrow> string) \<Rightarrow> TDCEvent list \<Rightarrow> u32 \<Rightarrow>
     GrpcClient \<times> bool \<times> EntropyBatch option \<times> metric_log" where
  "grpcForwarder_SendBatch client sendOk now duration errorText events sequence =
     (let converted = map toProtoEvent events;
          (client', err, sent, ms) = grpc_SendBatch client sendOk now (map fst converted) sequence;
          n = int (length events)
      in case err of
           Some e \<Rightarrow> (client', True, sent,
             concat (map snd converted) @ ms @ RecordBatch n duration False (errorText e))
         | None \<Rightarrow> (client', False, sent,
             concat (map snd converted) @ ms @ RecordBatch n duration True []))"

definition newCloudAwareForwarder :: "WhitenedPool \<Rightarrow> cloudAwareForwarder" where
  "newCloudAwareForwarder pool = \<lparr>cf_pool = pool, cf_client = None, cf_transmitted = []\<rparr>"

definition SetClient :: "cloudAwareForwarder \<Rightarrow> GrpcClient option \<Rightarrow> cloudAwareForwarder \<times> metric_log" where
  "SetClient f c = (f\<lparr>cf_client := c\<rparr>, SetGRPCConnected (c \<noteq> None))"

text \<open>\<open>Close\<close> detaches the client and returns it for closing.\<close>

definition cf_Close :: "cloudAwareForwarder \<Rightarrow> cloudAwareForwarder \<times> GrpcClient option \<times> metric_log" where
  "cf_Close f = (f\<lparr>cf_client := None\<rparr>, cf_client f, SetGRPCConnected False)"

definition cf_SendBatch ::
    "cloud_env \<Rightarrow> cloudAwareForwarder \<Rightarrow> TDCEvent list \<Rightarrow> u32 \<Rightarrow> cloudAwareForwarder \<times> bool \<times> metric_log" where
  "cf_SendBatch env f events sequence =
     (let (pool', ms1) = AddBatch (cf_pool f) events;
          f1 = f\<lparr>cf_pool := pool', cf_client := env_client env sequence (cf_client f)\<rparr>;
          n = int (length events);
          localDuration = env_duration env sequence
      in case cf_client f1 of
           None \<Rightarrow> (f1, False, ms1 @ RecordBatch n localDuration True [])
         | Some client \<Rightarrow>
             let converted = map toProtoEvent events;
                 pbEvents = map fst converted;
                 ms2 = concat (map snd converted);
                 (client', err, sent, ms3) =
                   grpc_SendBatch client (env_sendOk env sequence) (env_now env sequence) pbEvents sequence;
                 f2 = f1\<lparr>cf_client := Some client',
                         cf_transmitted := cf_transmitted f1 @
                           (case sent of None \<Rightarrow> [] | Some b \<Rightarrow> [b])\<rparr>
             in case err of
                  Some e \<Rightarrow>
                    (f2, True, ms1 @ ms2 @ ms3 @ RecordBatch n localDuration False (env_errorText env e))
                | None \<Rightarrow> (f2, False, ms1 @ ms2 @ ms3 @ RecordBatch n localDuration True []))"

definition cf_IncrementDropped :: "cloudAwareForwarder \<Rightarrow> u32 \<Rightarrow> cloudAwareForwarder \<times> metric_log" where
  "cf_IncrementDropped f count =
     (if count = 0 then (f, []) else (f, RecordDroppedCount ''forwarder'' count))"

definition cloud_sender :: "cloud_env \<Rightarrow> cloudAwareForwarder BatchSender" where
  "cloud_sender env =
     \<lparr>bs_SendBatch = cf_SendBatch env, bs_IncrementDropped = cf_IncrementDropped\<rparr>"

text \<open>
  \<open>setupBatchCollector\<close> turns the batch size into a flush interval at the nominal rate of 184
  events per second; the conversion to a duration drops the fraction before it is scaled.
\<close>

definition flush_interval :: "int \<Rightarrow> int" where
  "flush_interval batchSize =
     wrap_int (trunc_float (round64 (float64_of_int batchSize / 184)) * second)"

definition setupBatchCollector :: "Config \<Rightarrow> BatchCollector option \<times> metric_log" where
  "setupBatchCollector config =
     (let batchSize = cfg_BatchSize config
      in (NewBatchCollectorWithFlush batchSize (flush_interval batchSize),
          SetCollectorBatchSize batchSize))"

subsection \<open>The contract of a sender\<close>

text \<open>
  Every batch is fed to the pool by one \<open>AddBatch\<close>, whatever happens to its copy for the cloud;
  reporting a drop leaves the pool alone, counts no message and no event, and raises the counter of
  drops by \<open>own_drops f\<close>.
\<close>

locale batch_sender =
  fixes sender :: "'f BatchSender"
    and pool_of :: "'f \<Rightarrow> WhitenedPool"
    and own_drops :: "'f \<Rightarrow> real"
  assumes send_feeds: "pool_of (fst (bs_SendBatch sender f evs sq)) = fst (AddBatch (pool_of f) evs)"
    and send_log: "log_ok (snd (snd (bs_SendBatch sender f evs sq)))"
    and dropped_pool: "pool_of (fst (bs_IncrementDropped sender f n)) = pool_of f"
    and dropped_log: "log_ok (snd (bs_IncrementDropped sender f n))"
    and dropped_counts: "m \<in> {MQTTInboundMessages, EventsProcessed} \<Longrightarrow>
      counter_total m (snd (bs_IncrementDropped sender f 1)) = 0"
    and dropped_drops: "counter_total EventsDropped (snd (bs_IncrementDropped sender f 1)) = own_drops f"
begin

lemma loop_feeds:
  "pool_of (fst (runSendLoop sender f jobs)) =
     fst (pool_run (pool_of f) (map (\<lambda>j. PoolAdd (req_batch j)) jobs))"
proof (induction jobs arbitrary: f)
  case (Cons j js)
  then show ?case by (simp add: case_prod_beta send_feeds)
qed simp

lemma loop_log: "log_ok (snd (runSendLoop sender f jobs))"
  by (induction jobs arbitrary: f) (simp_all add: case_prod_beta send_log)

lemma fed_events_jobs: "fed_events (map (\<lambda>j. PoolAdd (req_batch j)) jobs) = concat (map req_batch jobs)"
  by (induction jobs) simp_all

lemma loop_history:
  "pool_invar (pool_of f) \<Longrightarrow>
     rawEvents (pool_of (fst (runSendLoop sender f jobs))) =
       keep_newest 4096 (rawEvents (pool_of f) @ concat (map req_batch jobs))"
  using pool_run_history[of "pool_of f" "map (\<lambda>j. PoolAdd (req_batch j)) jobs"]
  by (simp only: loop_feeds fed_events_jobs)

text \<open>The collector with this sender behind it is what the message handler needs.\<close>

lemma sink_dropped:
  "fst (fst (coll_IncrementDropped (collector_sink (Some sender) d) (s, f) n)) = s"
  "snd (coll_IncrementDropped (collector_sink (Some sender) d) (s, f) n) = snd (bs_IncrementDropped sender f n)"
  by (simp_all add: collector_sink_def BC_IncrementDropped_def case_prod_beta)

lemma sink_ok:
  "event_sink (collector_sink (Some sender) d) (\<lambda>(s, f). received_events s)
     (\<lambda>(s, f). \<not> sys_panicked s \<and> sys_lock s = None) (\<lambda>(s, f). own_drops f)"
proof unfold_locales
  fix sf :: "system \<times> 'f" and e
  obtain s f where sf: "sf = (s, f)" by (cases sf)
  assume "case sf of (s, f) \<Rightarrow> \<not> sys_panicked s \<and> sys_lock s = None"
  then have "\<not> sys_panicked s" "sys_lock s = None" by (simp_all add: sf)
  from cstep_received[OF collector_sink_add[OF this, of d e "Some sender" f]]
  show "(case fst (coll_Add (collector_sink (Some sender) d) sf e) of (s, f) \<Rightarrow> received_events s) =
      (case sf of (s, f) \<Rightarrow> received_events s) @ [e]"
    by (simp add: sf case_prod_beta)
qed (auto simp: collector_sink_add_log sink_dropped dropped_log dropped_counts dropped_drops case_prod_beta)

end

lemma toProtoEvent_eq:
  "toProtoEvent evt =
     (\<lparr>pb_RpiTimestampUs = RpiTimestampUs evt, pb_TdcTimestampPs = TdcTimestampPs evt,
       pb_Channel = Channel evt,
       pb_WhitenedEntropy = Sum256 (ParityPreprocess (PutUint64 (TdcTimestampPs evt)))\<rparr>, [])"
  by (simp add: toProtoEvent_def whitenEvent_def Let_def DualStageWhitening_eq)

interpretation local_snd: batch_sender "local_sender dur" "\<lambda>pool. pool" "\<lambda>pool. 0" for dur
  by unfold_locales (auto simp: local_sender_def case_prod_beta AddBatch_log_ok)

lemma cf_SendBatch_pool: "cf_pool (fst (cf_SendBatch env f evs sq)) = fst (AddBatch (cf_pool f) evs)"
  by (simp add: cf_SendBatch_def Let_def case_prod_beta split: option.split)

lemma grpc_SendBatch_log: "log_ok (snd (snd (snd (grpc_SendBatch c ok now evs sq))))"
  by (simp add: grpc_SendBatch_def Let_def)

lemma cf_SendBatch_log: "log_ok (snd (snd (cf_SendBatch env f evs sq)))"
proof -
  have "log_ok (concat (map (snd \<circ> toProtoEvent) evs))"
    by (induction evs) (simp_all add: toProtoEvent_eq)
  then show ?thesis
    by (simp add: cf_SendBatch_def Let_def case_prod_beta AddBatch_log_ok grpc_SendBatch_log
        split: option.split)
qed

lemma RecordDroppedCount_count:
  "counter_total m (RecordDroppedCount reason 1) = (if m = EventsDropped then 1 else 0)"
  by (simp add: RecordDroppedCount_def float64_of_int_exact)

text \<open>The cloud-capable sender counts a reported drop itself, under the reason \<^verbatim>\<open>forwarder\<close>.\<close>

interpretation cloud_snd: batch_sender "cloud_sender env" cf_pool "\<lambda>f. 1" for env
  by unfold_locales
     (auto simp: cloud_sender_def cf_SendBatch_pool cf_SendBatch_log cf_IncrementDropped_def
       RecordDroppedCount_count)

interpretation local_sink: event_sink "collector_sink (Some (local_sender dur)) d"
  "\<lambda>(s, f). received_events s" "\<lambda>(s, f). \<not> sys_panicked s \<and> sys_lock s = None" "\<lambda>(s, f). 0" for dur d
  by (rule local_snd.sink_ok)

interpretation cloud_sink: event_sink "collector_sink (Some (cloud_sender env)) d"
  "\<lambda>(s, f). received_events s" "\<lambda>(s, f). \<not> sys_panicked s \<and> sys_lock s = None" "\<lambda>(s, f). 1" for env d
  by (rule cloud_snd.sink_ok)

text \<open>
  The sender that \<open>setupBatchCollector\<close> puts behind the collector: the local one, unless there is a
  forwarder. Its state is the pool, or the forwarder that holds it.
\<close>

type_synonym sender_state = "WhitenedPool + cloudAwareForwarder"

definition setup_sender :: "cloud_env \<Rightarrow> sender_state BatchSender" where
  "setup_sender env =
     \<lparr>bs_SendBatch = (\<lambda>st events sequence.
        case st of
          Inl pool \<Rightarrow>
            (case bs_SendBatch (local_sender (env_duration env)) pool events sequence of
               (pool', failed, ms) \<Rightarrow> (Inl pool', failed, ms))
        | Inr f \<Rightarrow>
            (case bs_SendBatch (cloud_sender env) f events sequence of
               (f', failed, ms) \<Rightarrow> (Inr f', failed, ms))),
      bs_IncrementDropped = (\<lambda>st count.
        case st of
          Inl pool \<Rightarrow>
            (case bs_IncrementDropped (local_sender (env_duration env)) pool count of
               (pool', ms) \<Rightarrow> (Inl pool', ms))
        | Inr f \<Rightarrow>
            (case bs_IncrementDropped (cloud_sender env) f count of (f', ms) \<Rightarrow> (Inr f', ms)))\<rparr>"

definition initial_sender :: "Config \<Rightarrow> WhitenedPool \<Rightarrow> sender_state" where
  "initial_sender config pool =
     (if Cloud_Enabled (cfg_CloudForwarder config) then Inr (newCloudAwareForwarder pool) else Inl pool)"

definition sender_pool :: "sender_state \<Rightarrow> WhitenedPool" where
  "sender_pool st = (case st of Inl pool \<Rightarrow> pool | Inr f \<Rightarrow> cf_pool f)"

definition with_sender_pool :: "sender_state \<Rightarrow> WhitenedPool \<Rightarrow> sender_state" where
  "with_sender_pool st pool = (case st of Inl _ \<Rightarrow> Inl pool | Inr f \<Rightarrow> Inr (f\<lparr>cf_pool := pool\<rparr>))"

lemma sender_pool_simps [simp]:
  "sender_pool (initial_sender config pool) = pool"
  "sender_pool (with_sender_pool st pool) = pool"
  by (simp_all add: sender_pool_def initial_sender_def with_sender_pool_def newCloudAwareForwarder_def
      split: sum.split)

interpretation setup_snd: batch_sender "setup_sender env" sender_pool
  "\<lambda>st. case st of Inl pool \<Rightarrow> 0 | Inr f \<Rightarrow> 1" for env
  by unfold_locales
     (auto simp: setup_sender_def sender_pool_def case_prod_beta local_snd.send_feeds cloud_snd.send_feeds
       local_snd.send_log cloud_snd.send_log local_snd.dropped_pool cloud_snd.dropped_pool
       local_snd.dropped_log cloud_snd.dropped_log local_snd.dropped_counts cloud_snd.dropped_counts
       local_snd.dropped_drops cloud_snd.dropped_drops split: sum.split)

subsection \<open>The copy for the cloud\<close>

text \<open>
  A batch is put on the stream at most once, under its own number and with its own events, and
  only while the client is connected; a batch whose send fails is not sent again.
\<close>

definition cloud_copy :: "sendRequest \<Rightarrow> EntropyBatch \<Rightarrow> bool" where
  "cloud_copy r b \<longleftrightarrow>
     eb_Events b = map (fst \<circ> toProtoEvent) (req_batch r) \<and> eb_BatchSequence b = req_seq r"

lemma cf_SendBatch_transmitted:
  "\<exists>bs. cf_transmitted (fst (cf_SendBatch env f evs sq)) = cf_transmitted f @ bs \<and>
     (bs = [] \<or> (\<exists>b. bs = [b] \<and> eb_Events b = map (fst \<circ> toProtoEvent) evs \<and> eb_BatchSequence b = sq \<and>
        (\<exists>c. env_client env sq (cf_client f) = Some c \<and> gc_connected c \<and> env_sendOk env sq)))"
proof (cases "env_client env sq (cf_client f)")
  case None
  then show ?thesis by (simp add: cf_SendBatch_def Let_def case_prod_beta)
next
  case (Some c)
  define evs' where "evs' = map (fst \<circ> toProtoEvent) evs"
  obtain c' err sent ms where g:
    "grpc_SendBatch c (env_sendOk env sq) (env_now env sq) evs' sq = (c', err, sent, ms)"
    by (cases "grpc_SendBatch c (env_sendOk env sq) (env_now env sq) evs' sq") auto
  note out = grpc_SendBatch_outcome[OF g]
  have "cf_transmitted (fst (cf_SendBatch env f evs sq)) =
      cf_transmitted f @ (case sent of None \<Rightarrow> [] | Some b \<Rightarrow> [b])"
    using Some g by (simp add: cf_SendBatch_def Let_def case_prod_beta evs'_def split: option.split)
  with out Some show ?thesis by (cases sent) (auto simp: evs'_def)
qed

lemma cloud_loop_transmitted:
  "\<exists>sel bs. cf_transmitted (fst (runSendLoop (cloud_sender env) f jobs)) = cf_transmitted f @ bs \<and>
     subseq sel jobs \<and> list_all2 cloud_copy sel bs"
proof (induction jobs arbitrary: f)
  case (Cons j js)
  define f1 where "f1 = fst (cf_SendBatch env f (req_batch j) (req_seq j))"
  obtain bs1 where b1: "cf_transmitted f1 = cf_transmitted f @ bs1"
    "bs1 = [] \<or> (\<exists>b. bs1 = [b] \<and> cloud_copy j b)"
    using cf_SendBatch_transmitted[of env f "req_batch j" "req_seq j"]
    by (auto simp: f1_def cloud_copy_def)
  obtain sel bs where IH: "cf_transmitted (fst (runSendLoop (cloud_sender env) f1 js)) =
      cf_transmitted f1 @ bs" "subseq sel js" "list_all2 cloud_copy sel bs"
    using Cons.IH[of f1] by blast
  have run: "fst (runSendLoop (cloud_sender env) f (j # js)) = fst (runSendLoop (cloud_sender env) f1 js)"
    by (simp add: f1_def cloud_sender_def case_prod_beta)
  show ?case
  proof (cases "bs1 = []")
    case True
    with IH b1 show ?thesis unfolding run by (intro exI[of _ sel] exI[of _ bs]) auto
  next
    case False
    with IH b1 show ?thesis unfolding run by (intro exI[of _ "j # sel"] exI[of _ "bs1 @ bs"]) auto
  qed
qed auto

subsection \<open>From messages to the pool\<close>

fun added_batches :: "pool_op list \<Rightarrow> TDCEvent list list" where
  "added_batches [] = []"
| "added_batches (PoolAdd events # ops) = events # added_batches ops"
| "added_batches (PoolExtract n # ops) = added_batches ops"

lemma fed_events_added: "fed_events ops = concat (added_batches ops)"
  by (induction ops rule: added_batches.induct) simp_all

lemma conditioned_added: "conditioned ops = concat (map batch_bytes (added_batches ops))"
  by (induction ops rule: added_batches.induct) simp_all

text \<open>
  The batches the send loop hands over, interleaved in any way with extractions, leave in the
  pool the newest 4096 of the events that were added before the close.
\<close>

lemma closed_run_history:
  assumes "NewBatchCollectorWithFlush m fi = Some bc"
    and "crun (init_system bc) (ls @ [LCloseDone]) s" and "quiet ls"
    and "added_batches ops = map req_batch (sys_sent s)"
  shows "rawEvents (fst (pool_run (NewWhitenedPoolWithBounds mn mx) ops)) = keep_newest 4096 (adds ls)"
proof -
  have "fed_events ops = adds ls"
    using close_done_delivers[OF assms(1-3)] assms(4) by (simp add: fed_events_added)
  moreover have "rawEvents (NewWhitenedPoolWithBounds mn mx) = []"
    by (simp add: NewWhitenedPoolWithBounds_def Let_def)
  ultimately show ?thesis
    using pool_run_history[OF new_pool_invar, of mn mx ops] by simp
qed

subsection \<open>Addresses and client authentication\<close>

definition parseClientAuth :: "string \<Rightarrow> client_auth_type" where
  "parseClientAuth mode =
     (if mode = ''require'' then RequireAndVerifyClientCert
      else if mode = ''request'' then RequestClientCert else NoClientCert)"

definition validateEntropyAddr :: "string \<Rightarrow> bool \<Rightarrow> server_error option" where
  "validateEntropyAddr addr allowPublic =
     (case SplitHostPort addr of
        Inl err \<Rightarrow> Some (InvalidAddress err)
      | Inr (host, _) \<Rightarrow>
          (case ParseIP host of
             None \<Rightarrow>
               if host = ''localhost'' then None
               else if allowPublic then None
               else Some (HostMustBeLoopback host)
           | Some ip \<Rightarrow>
               if \<not> IsLoopback ip then (if allowPublic then None else Some (HostMustBeLoopback host))
               else None))"

subsection \<open>Retry loops\<close>

text \<open>
  \<open>setupMQTT\<close>: a client is made and connected; \<open>outs\<close> are the connections the library reports
  before \<open>Connect\<close> returns. A client that fails to connect is closed again.
\<close>

definition setupMQTT ::
    "(string \<Rightarrow> string option) \<Rightarrow> (string \<Rightarrow> bool) \<Rightarrow> bool \<Rightarrow> byte list option \<Rightarrow>
     (string \<Rightarrow> sub_outcome) list \<Rightarrow> token_outcome \<Rightarrow> bool \<Rightarrow> bool \<Rightarrow> Config \<Rightarrow>
     (mqtt_error + MqttClient) \<times> metric_log" where
  "setupMQTT read_file pem_ok system_ok random outs token timerFirst connectionOpen config =
     (case mqtt_NewClient read_file pem_ok system_ok random (cfg_MQTT config) of
        Inl err \<Rightarrow> (Inl err, [])
      | Inr client \<Rightarrow>
          let (client1, ms1) = connects client outs;
              (client2, err, ms2) = mqtt_Connect (Some client1) token timerFirst
          in case err of
               Some e \<Rightarrow> (Inl e, ms1 @ ms2 @ mqtt_Close client2 connectionOpen)
             | None \<Rightarrow> (Inr (the client2), ms1 @ ms2))"

text \<open>
  \<open>connectMQTTWithRetry\<close>: the outcomes of the attempts, each with the random number drawn after
  a failure, give the client and the waits; \<open>None\<close> when the outcomes run out before a success.
\<close>

definition mqtt_initialDelay :: int where "mqtt_initialDelay = 1 * second"
definition mqtt_maxDelay :: int where "mqtt_maxDelay = 30 * second"
definition jitterFraction :: rat where "jitterFraction = round64 (1 / 5)"

definition jittered_wait :: "int \<Rightarrow> rat \<Rightarrow> int" where
  "jittered_wait delay random =
     (let jitter = round64 (1 + round64 (round64 (round64 (random * 2) - 1) * jitterFraction));
          wait = trunc_float (round64 (float64_of_int delay * jitter))
      in if wait < 0 then 0 else wait)"

fun connect_retry :: "int \<Rightarrow> ('c option \<times> rat) list \<Rightarrow> 'c option \<times> int list" where
  "connect_retry delay [] = (None, [])"
| "connect_retry delay ((outcome, random) # rest) =
     (case outcome of
        Some client \<Rightarrow> (Some client, [])
      | None \<Rightarrow>
          (case connect_retry (next_delay mqtt_maxDelay delay) rest of
             (res, waits) \<Rightarrow> (res, jittered_wait delay random # waits)))"

definition connectMQTTWithRetry :: "('c option \<times> rat) list \<Rightarrow> 'c option \<times> int list" where
  "connectMQTTWithRetry outcomes = connect_retry mqtt_initialDelay outcomes"

text \<open>\<open>startGRPCConnector\<close>: the delays between attempts; it stops at the first client.\<close>

definition connector_delay :: "CloudForwarder \<Rightarrow> int" where
  "connector_delay cfg = (let d = wrap_int (ReconnectDelay cfg * second) in if d \<le> 0 then 5 * second else d)"

definition connector_maxDelay :: "CloudForwarder \<Rightarrow> int" where
  "connector_maxDelay cfg = (let d = wrap_int (MaxReconnectSec cfg * second) in if d \<le> 0 then 60 * second else d)"

fun connector_loop :: "int \<Rightarrow> int \<Rightarrow> (GrpcClient option \<times> bool) list \<Rightarrow> GrpcClient option \<times> int list" where
  "connector_loop mx delay [] = (None, [])"
| "connector_loop mx delay ((outcome, cancelled) # rest) =
     (case outcome of
        Some client \<Rightarrow> (Some client, [])
      | None \<Rightarrow>
          if cancelled then (None, [delay])
          else (case connector_loop mx (next_delay mx delay) rest of
                  (res, delays) \<Rightarrow> (res, delay # delays)))"

definition startGRPCConnector ::
    "CloudForwarder \<Rightarrow> cloudAwareForwarder \<Rightarrow> (GrpcClient option \<times> bool) list \<Rightarrow>
     cloudAwareForwarder \<times> metric_log \<times> int list" where
  "startGRPCConnector cfg f outcomes =
     (case connector_loop (connector_maxDelay cfg) (connector_delay cfg) outcomes of
        (None, delays) \<Rightarrow> (f, [], delays)
      | (Some client, delays) \<Rightarrow>
          (case SetClient f (Some client) of (f', ms) \<Rightarrow> (f', ms, delays)))"

lemma jittered_wait_bounds:
  assumes "0 \<le> delay" "delay \<le> 2 ^ 52" "0 \<le> r" "r \<le> 1"
  shows "of_int (jittered_wait delay r) \<le> of_int delay * 121 / (100 :: rat) \<and>
    of_int delay * 79 / 100 \<le> of_int (jittered_wait delay r) + (1 :: rat)"
proof -
  define u where "u = (1 / 2 ^ 53 :: rat)"
  have frac: "jitterFraction = 3602879701896397 / 18014398509481984" unfolding jitterFraction_def by code_simp
  have e1: "round64 (r * 2) \<le> 2" "0 \<le> round64 (r * 2)"
    using f64.rnd_mono[of "r * 2" 2] f64.rnd_int[of 2] assms by (simp_all add: f64.rnd_nonneg)
  have e2: "round64 (round64 (r * 2) - 1) \<le> 1" "- 1 \<le> round64 (round64 (r * 2) - 1)"
    using f64.rnd_mono[of "round64 (r * 2) - 1" 1] f64.rnd_mono[of "- 1" "round64 (r * 2) - 1"]
      f64.rnd_int[of "- 1"] e1 by simp_all
  define x where "x = round64 (round64 (round64 (r * 2) - 1) * jitterFraction)"
  have idem: "round64 jitterFraction = jitterFraction"
    unfolding frac by code_simp
  have m: "round64 (- jitterFraction) = - jitterFraction" using idem by (simp add: round64_minus)
  have e3: "x \<le> jitterFraction" "- jitterFraction \<le> x"
    using f64.rnd_mono[of "round64 (round64 (r * 2) - 1) * jitterFraction" jitterFraction]
      f64.rnd_mono[of "- jitterFraction" "round64 (round64 (r * 2) - 1) * jitterFraction"] e2
    unfolding x_def idem m by (simp_all add: frac)
  define j where "j = round64 (1 + x)"
  have e4: "j \<le> 1201 / 1000" "799 / 1000 \<le> j"
  proof -
    have y: "0 \<le> 1 + x" "1 + x \<le> 12001 / 10000" "7999 / 10000 \<le> 1 + x"
      using e3 by (simp_all add: frac)
    have "(1 + x) / 2 ^ 53 \<le> 2 / 2 ^ 53" using y(2) by (intro divide_right_mono) simp_all
    also have "(2 / 2 ^ 53 :: rat) \<le> 1 / 10000" by simp
    finally have "(1 + x) / 2 ^ 53 \<le> 1 / 10000" .
    with y f64.rnd_le[OF y(1)] f64.rnd_ge[OF y(1)] show "j \<le> 1201 / 1000" "799 / 1000 \<le> j"
      unfolding j_def by linarith+
  qed
  have d: "float64_of_int delay = of_int delay" using assms by (intro float64_of_int_exact) simp
  define w where "w = round64 (of_int delay * j)"
  have w0: "0 \<le> of_int delay * j" using assms(1) e4(2) by simp
  have p1: "of_int delay * j \<le> of_int delay * (1201 / 1000)"
    using assms(1) e4(1) by (intro mult_left_mono) simp_all
  have p2: "of_int delay * (799 / 1000) \<le> of_int delay * j"
    using assms(1) e4(2) by (intro mult_left_mono) simp_all
  have wle: "w \<le> of_int delay * j + of_int delay * j / 2 ^ 53"
    and wge: "of_int delay * j - of_int delay * j / 2 ^ 53 \<le> w"
    unfolding w_def using f64.rnd_le[OF w0] f64.rnd_ge[OF w0] by simp_all
  have wnn: "0 \<le> w" unfolding w_def using w0 by (rule f64.rnd_nonneg)
  have jw: "jittered_wait delay r = \<lfloor>w\<rfloor>"
    using wnn by (simp add: jittered_wait_def Let_def d x_def[symmetric] j_def[symmetric]
        w_def[symmetric] trunc_float_def)
  have dd: "0 \<le> (of_int delay :: rat)" using assms(1) by simp
  define P where "P = of_int delay * j"
  have "P / 2 ^ 53 \<le> P / 1000" using w0 unfolding P_def by (intro divide_left_mono) simp_all
  then have b: "w \<le> P + P / 1000" "P - P / 1000 \<le> w"
    "P \<le> of_int delay * (1201 / 1000)" "of_int delay * (799 / 1000) \<le> P"
    using wle wge p1 p2 unfolding P_def by linarith+
  have "w \<le> of_int delay * 121 / 100" using b dd by linarith
  moreover have "of_int delay * 79 / 100 \<le> w" using b dd by linarith
  moreover have "of_int \<lfloor>w\<rfloor> \<le> w" "w < of_int \<lfloor>w\<rfloor> + 1" by linarith+
  ultimately show ?thesis unfolding jw by linarith
qed

lemma connect_retry_success:
  "connect_retry d (map (\<lambda>r. (None, r)) rs @ (Some client, r0) # rest) =
     (Some client, map (\<lambda>(k, r). jittered_wait ((next_delay mqtt_maxDelay ^^ k) d) r) (enumerate 0 rs))"
proof (induction rs arbitrary: d)
  case (Cons r rs)
  have "map (\<lambda>(k, r). jittered_wait ((next_delay mqtt_maxDelay ^^ k) (next_delay mqtt_maxDelay d)) r) (enumerate 0 rs) =
      map (\<lambda>(k, r). jittered_wait ((next_delay mqtt_maxDelay ^^ k) d) r) (enumerate (Suc 0) rs)"
    by (simp add: enumerate_Suc_eq funpow_swap1 case_prod_beta del: funpow.simps)
       (simp add: funpow_swap1)
  with Cons show ?case by (simp add: case_prod_unfold)
qed simp

subsection \<open>Starting and stopping\<close>

text \<open>A server starts with its TLS configuration, or without TLS.\<close>

datatype gw_event =
    EvMetricsStart "tls_config option" | EvMetricsShutdown
  | EvEntropyStart string "tls_config option" | EvEntropyShutdown
  | EvForwarderAttached | EvConnectorStart | EvConnectorAttached | EvForwarderClose
  | EvCollectorStart | EvCollectorClose
  | EvMQTTConnected | EvMQTTClose
  | EvSignal | EvCancelRoot | EvFatal

datatype flag_outcome = FlagsHelp | FlagsBad | FlagsExtraArgs | FlagsOk

definition waitForShutdown :: "gw_event list" where
  "waitForShutdown =
     [EvSignal, EvMQTTClose, EvCollectorClose, EvEntropyShutdown, EvMetricsShutdown]"

text \<open>
  The outcomes of what \<open>run\<close> calls: command line, configuration, which certificates load and which
  addresses can be bound, which host names resolve, how the metrics server's serving call ends,
  the first gRPC connection, the number of events after which the connector gets a connection
  (if it does), and the MQTT connection.
\<close>

record run_input =
  in_flags :: flag_outcome
  in_config :: "config_error + Config"
  in_now :: int
  in_certs :: "tls_config \<Rightarrow> bool"
  in_listen :: "string \<Rightarrow> bool"
  in_lookup :: "string \<Rightarrow> bool"
  in_serve :: "string \<Rightarrow> tls_config option \<Rightarrow> serve_error option"
  in_grpc :: bool
  in_attach :: "nat option"
  in_mqtt :: bool

definition metrics_tls :: "MetricsConfig \<Rightarrow> tls_config option" where
  "metrics_tls m =
     (if Metrics_TLSEnabled m
      then Some \<lparr>tls_CertFile = Metrics_TLSCertFile m, tls_KeyFile = Metrics_TLSKeyFile m,
                 tls_CAFile = Metrics_TLSCAFile m, tls_ClientAuth = parseClientAuth (Metrics_TLSClientAuth m)\<rparr>
      else None)"

text \<open>What the goroutine that serves the metrics returns with, and how the entropy server starts.\<close>

definition start_metrics :: "run_input \<Rightarrow> MetricsConfig \<Rightarrow> metrics_error option" where
  "start_metrics inp m =
     (let metricsServer = NewServer (Metrics_Bind m)
      in if Metrics_TLSEnabled m
         then metrics_StartTLS (in_lookup inp) (in_certs inp) (in_serve inp) metricsServer
                (Metrics_TLSCertFile m) (Metrics_TLSKeyFile m) (Metrics_TLSCAFile m)
                (parseClientAuth (Metrics_TLSClientAuth m))
         else metrics_Start (in_lookup inp) (in_serve inp) metricsServer)"

definition start_entropy :: "run_input \<Rightarrow> EntropyPoolConfig \<Rightarrow> HTTPServer \<Rightarrow> start_error + listener" where
  "start_entropy inp p server =
     (if Pool_TLSEnabled p
      then http_StartTLS (in_certs inp) (in_listen inp) server (Pool_TLSCertFile p) (Pool_TLSKeyFile p)
             (Pool_TLSCAFile p) (parseClientAuth (Pool_TLSClientAuth p))
      else http_Start (in_listen inp) server)"

text \<open>
  The goroutine of \<open>run\<close> itself: what it starts, and after that the deferred calls in reverse order.
  The first of them, which cancels the root context, runs last on every return.
\<close>

definition gw_main :: "run_input \<Rightarrow> int \<times> gw_event list" where
  "gw_main inp =
     (let deferred0 = [EvCancelRoot]
      in case in_flags inp of
        FlagsHelp \<Rightarrow> (0, deferred0) | FlagsBad \<Rightarrow> (2, deferred0) | FlagsExtraArgs \<Rightarrow> (2, deferred0)
      | FlagsOk \<Rightarrow>
          (case in_config inp of
             Inl _ \<Rightarrow> (1, deferred0)
           | Inr config \<Rightarrow>
               let p = cfg_EntropyPool config;
                   done1 = [EvMetricsStart (metrics_tls (cfg_Metrics config))];
                   deferred1 = EvMetricsShutdown # deferred0;
                   pool = NewWhitenedPoolWithBounds (PoolMinBytes p) (PoolMaxBytes p)
               in if validateEntropyAddr (HTTPAddr p) (AllowPublic p) \<noteq> None then (1, done1 @ deferred1)
                  else case NewHTTPServer (HTTPAddr p) (Some pool) (ReadyMinBytes p) (AllowPublic p)
                              (RetryAfterSec p) (RateLimitRPS p) (RateLimitBurst p) (in_now inp) of
                         Inl _ \<Rightarrow> (1, done1 @ deferred1)
                       | Inr server \<Rightarrow>
                           (case start_entropy inp p server of
                              Inl _ \<Rightarrow> (1, done1 @ deferred1)
                            | Inr bound \<Rightarrow>
                                let done2 = done1 @ [EvEntropyStart (lst_addr bound) (lst_tls bound)];
                                    deferred2 = EvEntropyShutdown # deferred1;
                                    cloud = Cloud_Enabled (cfg_CloudForwarder config);
                                    done3 = (if cloud then done2 @
                                               [if in_grpc inp then EvForwarderAttached else EvConnectorStart]
                                             else done2);
                                    deferred3 = (if cloud then EvForwarderClose # deferred2 else deferred2);
                                    done4 = done3 @ [EvCollectorStart];
                                    deferred4 = EvCollectorClose # deferred3
                                in if \<not> in_mqtt inp then (1, done4 @ deferred4)
                                   else (0, done4 @ [EvMQTTConnected] @ waitForShutdown @
                                            [EvMQTTClose] @ deferred4))))"

text \<open>
  The connector is a goroutine of its own: it attaches a client at any moment after its start.
  Neither \<open>cloudAwareForwarder.Close\<close> nor an attempt already under way stops it, only the root
  context between two attempts, so the client may be attached when the forwarder is closed already.
\<close>

definition with_connector :: "nat option \<Rightarrow> gw_event list \<Rightarrow> gw_event list" where
  "with_connector attach evs =
     (case attach of
        None \<Rightarrow> evs
      | Some j \<Rightarrow> if EvConnectorStart \<in> set (take j evs)
                  then take j evs @ EvConnectorAttached # drop j evs else evs)"

definition gw_run :: "run_input \<Rightarrow> int \<times> gw_event list" where
  "gw_run inp = (case gw_main inp of (code, evs) \<Rightarrow> (code, with_connector (in_attach inp) evs))"

text \<open>
  The metrics server runs beside \<open>run\<close>; when its start or its serving fails, the goroutine ends the
  whole process with exit code 1, and no deferred function runs. \<open>k\<close> is the number of events of
  \<open>run\<close> before that moment; a process that has finished earlier is not affected.
\<close>

definition metrics_failed :: "run_input \<Rightarrow> bool" where
  "metrics_failed inp \<longleftrightarrow>
     (case in_config inp of
        Inl _ \<Rightarrow> False | Inr config \<Rightarrow> start_metrics inp (cfg_Metrics config) \<noteq> None)"

definition gw_process :: "run_input \<Rightarrow> nat \<Rightarrow> int \<times> gw_event list" where
  "gw_process inp k =
     (case gw_run inp of
        (code, evs) \<Rightarrow>
          if metrics_failed inp \<and> 0 < k \<and> k < length evs then (1, take k evs @ [EvFatal])
          else (code, evs))"

text \<open>Does every occurrence of \<open>a\<close> have a later occurrence of \<open>b\<close>?\<close>

fun answered :: "'e \<Rightarrow> 'e \<Rightarrow> 'e list \<Rightarrow> bool" where
  "answered a b [] = True"
| "answered a b (x # xs) = ((x = a \<longrightarrow> b \<in> set xs) \<and> answered a b xs)"

definition before :: "'e \<Rightarrow> 'e \<Rightarrow> 'e list \<Rightarrow> bool" where
  "before a b xs = (b \<in> set xs \<longrightarrow> a \<in> set (takeWhile (\<lambda>x. x \<noteq> b) xs))"

lemma NewHTTPServer_addr:
  assumes "NewHTTPServer addr pool rt ap ra rps burst now = Inr srv"
  shows "\<exists>a. enforceLoopbackAddr a ap = Inr (srv_addr srv)"
  using assms by (auto simp: NewHTTPServer_def Let_def split: sum.splits)

lemma start_entropy_bound:
  "start_entropy inp p server = Inr bound \<Longrightarrow>
     lst_addr bound = srv_addr server \<and> in_listen inp (lst_addr bound) \<and>
     (if Pool_TLSEnabled p
      then \<exists>t. lst_tls bound = Some t \<and> in_certs inp t \<and> tls_CertFile t = Pool_TLSCertFile p \<and>
        tls_KeyFile t = Pool_TLSKeyFile p
      else lst_tls bound = None)"
  by (auto simp: start_entropy_def dest: http_Start_addr http_StartTLS_addr split: if_splits)

lemma answered_insert: "answered a b (us @ vs) \<Longrightarrow> x \<noteq> a \<Longrightarrow> answered a b (us @ x # vs)"
  by (induction us) auto

lemma before_Cons: "before a b (x # xs) \<longleftrightarrow> (b \<in> set (x # xs) \<longrightarrow> x \<noteq> b \<and> (a = x \<or> before a b xs))"
  by (cases "x = b") (auto simp: before_def)

lemma before_insert:
  assumes "x \<noteq> b"
  shows "before a b (us @ vs) \<Longrightarrow> before a b (us @ x # vs)"
proof (induction us)
  case Nil
  with assms show ?case by (simp add: before_Cons before_def)
next
  case (Cons u us)
  have "b \<in> set (us @ x # vs) \<longleftrightarrow> b \<in> set (us @ vs)" using assms by auto
  with Cons show ?case by (simp add: before_Cons) (auto simp: before_def)
qed

lemma with_connector_keeps:
  "answered a b evs \<Longrightarrow> a \<noteq> EvConnectorAttached \<Longrightarrow> answered a b (with_connector j evs)"
  "before a b evs \<Longrightarrow> b \<noteq> EvConnectorAttached \<Longrightarrow> before a b (with_connector j evs)"
  using answered_insert[of a b "take (the j) evs" "drop (the j) evs" EvConnectorAttached]
    before_insert[of EvConnectorAttached b a "take (the j) evs" "drop (the j) evs"]
  by (auto simp: with_connector_def split: option.split)

lemma with_connector_events:
  "e \<noteq> EvConnectorAttached \<Longrightarrow> e \<in> set (with_connector j evs) \<longleftrightarrow> e \<in> set evs"
proof -
  assume e: "e \<noteq> EvConnectorAttached"
  have "set (take i evs) \<union> set (drop i evs) = set evs" for i
    by (metis append_take_drop_id set_append)
  with e show ?thesis by (auto simp: with_connector_def split: option.split)
qed

lemma gw_run_main:
  "gw_run inp = (code, evs) \<Longrightarrow>
     \<exists>evs'. gw_main inp = (code, evs') \<and> evs = with_connector (in_attach inp) evs'"
  by (auto simp: gw_run_def split: prod.splits)

lemma gw_main_shutdown:
  assumes "gw_main inp = (code, evs)"
  shows "(\<forall>tls. answered (EvMetricsStart tls) EvMetricsShutdown evs) \<and>
    (\<forall>a tls. answered (EvEntropyStart a tls) EvEntropyShutdown evs) \<and>
    answered EvForwarderAttached EvForwarderClose evs \<and>
    answered EvConnectorStart EvForwarderClose evs \<and> answered EvConnectorStart EvCancelRoot evs \<and>
    answered EvCollectorStart EvCollectorClose evs \<and>
    answered EvMQTTConnected EvMQTTClose evs"
  using assms
  by (auto simp: gw_main_def Let_def waitForShutdown_def
      split: flag_outcome.splits sum.splits if_splits)

lemma gw_main_no_attach: "EvConnectorAttached \<notin> set (snd (gw_main inp))"
  by (auto simp: gw_main_def Let_def waitForShutdown_def split: flag_outcome.splits sum.splits if_splits)

lemma gw_run_shutdown:
  assumes "gw_run inp = (code, evs)"
  shows "(\<forall>tls. answered (EvMetricsStart tls) EvMetricsShutdown evs) \<and>
    (\<forall>a tls. answered (EvEntropyStart a tls) EvEntropyShutdown evs) \<and>
    answered EvForwarderAttached EvForwarderClose evs \<and>
    answered EvConnectorStart EvForwarderClose evs \<and> answered EvConnectorStart EvCancelRoot evs \<and>
    answered EvCollectorStart EvCollectorClose evs \<and>
    answered EvMQTTConnected EvMQTTClose evs"
proof -
  obtain evs' where "gw_main inp = (code, evs')" "evs = with_connector (in_attach inp) evs'"
    using gw_run_main[OF assms] by blast
  with gw_main_shutdown show ?thesis by (simp add: with_connector_keeps)
qed

lemma gw_main_order:
  assumes "gw_main inp = (code, evs)" and "EvMQTTConnected \<in> set evs"
  shows "code = 0 \<and> before EvMQTTConnected EvCollectorClose evs \<and> before EvMQTTClose EvCollectorClose evs \<and>
    before EvCollectorClose EvEntropyShutdown evs \<and> before EvEntropyShutdown EvMetricsShutdown evs"
  using assms
  by (auto simp: gw_main_def Let_def waitForShutdown_def before_def
      split: flag_outcome.splits sum.splits if_splits)

lemma gw_run_order:
  assumes "gw_run inp = (code, evs)" and "EvMQTTConnected \<in> set evs"
  shows "code = 0 \<and> before EvMQTTConnected EvCollectorClose evs \<and> before EvMQTTClose EvCollectorClose evs \<and>
    before EvCollectorClose EvEntropyShutdown evs \<and> before EvEntropyShutdown EvMetricsShutdown evs"
proof -
  obtain evs' where m: "gw_main inp = (code, evs')" "evs = with_connector (in_attach inp) evs'"
    using gw_run_main[OF assms(1)] by blast
  moreover from this assms(2) have "EvMQTTConnected \<in> set evs'" by (simp add: with_connector_events)
  ultimately show ?thesis using gw_main_order[of inp code evs'] by (simp add: with_connector_keeps)
qed

text \<open>
  A client attached by the connector is closed with the forwarder unless it is attached after that;
  and one that is attached later than the last closing of the forwarder is never closed.
\<close>

lemma answered_or_before:
  assumes "answered s b (us @ vs)" and "s \<in> set us" and "x \<notin> set us" and "x \<notin> set vs"
  shows "answered x b (us @ x # vs) \<or> before b x (us @ x # vs)"
proof -
  have none: "answered x b ws" if "x \<notin> set ws" for ws using that by (induction ws) auto
  have app: "answered x b (us @ x # vs)" if "b \<in> set vs"
    using assms(3) that none[OF assms(4)] by (induction us) auto
  have "b \<in> set us \<or> b \<in> set vs" using assms(1,2) by (induction us) auto
  moreover have "before b x (us @ x # vs)" if "b \<in> set us"
    using that assms(3) by (auto simp: before_def takeWhile_append)
  ultimately show ?thesis using app by blast
qed

lemma gw_run_connector:
  assumes "gw_run inp = (code, evs)"
  shows "answered EvConnectorAttached EvForwarderClose evs \<or> before EvForwarderClose EvConnectorAttached evs"
proof -
  obtain evs' where m: "gw_main inp = (code, evs')" "evs = with_connector (in_attach inp) evs'"
    using gw_run_main[OF assms(1)] by blast
  have no: "EvConnectorAttached \<notin> set evs'" using gw_main_no_attach[of inp] m(1) by simp
  show ?thesis
  proof (cases "EvConnectorAttached \<in> set evs")
    case True
    with no m(2) obtain j where j: "EvConnectorStart \<in> set (take j evs')"
      "evs = take j evs' @ EvConnectorAttached # drop j evs'"
      by (auto simp: with_connector_def split: option.splits if_splits)
    have n: "EvConnectorAttached \<notin> set (take j evs')" "EvConnectorAttached \<notin> set (drop j evs')"
      using no by (auto dest: in_set_takeD in_set_dropD)
    have "answered EvConnectorStart EvForwarderClose (take j evs' @ drop j evs')"
      using gw_main_shutdown[OF m(1)] by simp
    from answered_or_before[OF this j(1) n] show ?thesis by (simp only: j(2))
  next
    case False
    then have "answered EvConnectorAttached EvForwarderClose evs" by (induction evs) auto
    then show ?thesis ..
  qed
qed

lemma late_client_stays_open:
  assumes "gw_main inp = (code, evs)" and "in_attach inp = Some j"
    and "EvConnectorStart \<in> set (take j evs)" and "EvForwarderClose \<notin> set (drop j evs)"
  shows "\<not> answered EvConnectorAttached EvForwarderClose (snd (gw_run inp))"
proof -
  have "answered a b (us @ a # vs) \<Longrightarrow> b \<in> set vs" for a b :: gw_event and us vs
    by (induction us) auto
  with assms show ?thesis by (auto simp: gw_run_def with_connector_def)
qed

lemma gw_main_loopback:
  assumes "gw_main inp = (code, evs)" and "EvEntropyStart a tls \<in> set evs"
    and "in_config inp = Inr config" and "\<not> AllowPublic (cfg_EntropyPool config)"
  shows "\<exists>host port. SplitHostPort a = Inr (host, port) \<and> loopback_host host"
proof -
  have "\<exists>b. enforceLoopbackAddr b False = Inr a"
    using assms
    by (auto simp: gw_main_def Let_def waitForShutdown_def
        split: flag_outcome.splits sum.splits if_splits dest!: NewHTTPServer_addr start_entropy_bound)
  then show ?thesis using enforce_loopback by blast
qed

lemma gw_main_tls:
  assumes "gw_main inp = (code, evs)" and "EvEntropyStart a tls \<in> set evs"
    and "in_config inp = Inr config" and "Pool_TLSEnabled (cfg_EntropyPool config)"
  shows "\<exists>t. tls = Some t \<and> in_certs inp t \<and> tls_CertFile t = Pool_TLSCertFile (cfg_EntropyPool config) \<and>
    tls_KeyFile t = Pool_TLSKeyFile (cfg_EntropyPool config)"
  using assms
  by (auto simp: gw_main_def Let_def waitForShutdown_def
      split: flag_outcome.splits sum.splits if_splits dest!: start_entropy_bound)

lemma gw_run_started:
  assumes "gw_run inp = (code, evs)" and "EvEntropyStart a tls \<in> set evs"
  obtains evs' where "gw_main inp = (code, evs')" "EvEntropyStart a tls \<in> set evs'"
  using gw_run_main[OF assms(1)] assms(2) by (auto simp: with_connector_events)

lemma gw_run_loopback:
  assumes "gw_run inp = (code, evs)" and "EvEntropyStart a tls \<in> set evs"
    and "in_config inp = Inr config" and "\<not> AllowPublic (cfg_EntropyPool config)"
  shows "\<exists>host port. SplitHostPort a = Inr (host, port) \<and> loopback_host host"
  using gw_run_started[OF assms(1,2)] gw_main_loopback[OF _ _ assms(3,4)] by metis

lemma gw_run_tls:
  assumes "gw_run inp = (code, evs)" and "EvEntropyStart a tls \<in> set evs"
    and "in_config inp = Inr config" and "Pool_TLSEnabled (cfg_EntropyPool config)"
  shows "\<exists>t. tls = Some t \<and> in_certs inp t \<and> tls_CertFile t = Pool_TLSCertFile (cfg_EntropyPool config) \<and>
    tls_KeyFile t = Pool_TLSKeyFile (cfg_EntropyPool config)"
  using gw_run_started[OF assms(1,2)] gw_main_tls[OF _ _ assms(3,4)] by metis

lemma gw_run_not_fatal: "EvFatal \<notin> set (snd (gw_run inp))"
proof -
  have "EvFatal \<notin> set (snd (gw_main inp))"
    by (auto simp: gw_main_def Let_def waitForShutdown_def split: flag_outcome.splits sum.splits if_splits)
  then show ?thesis by (simp add: gw_run_def case_prod_beta with_connector_events)
qed

lemma gw_process_events: "set (snd (gw_process inp k)) \<subseteq> insert EvFatal (set (snd (gw_run inp)))"
  by (auto simp: gw_process_def case_prod_beta dest: in_set_takeD)

subsection \<open>Properties\<close>

text \<open>C19: The local pool gets everything, whatever happens to the cloud: over any batches the pool of the
  cloud-capable sender is the pool of the local one and holds the newest 4096 of their events,
  while what was put on the stream are copies of some of the batches, in order, each at most
  once, under its own number and with its own events.\<close>

theorem cloud_never_costs_local_entropy:
  "cf_pool (fst (runSendLoop (cloud_sender env) (newCloudAwareForwarder pool) jobs)) =
     fst (runSendLoop (local_sender dur) pool jobs) \<and>
   (\<exists>sel. subseq sel jobs \<and>
     list_all2 cloud_copy sel
       (cf_transmitted (fst (runSendLoop (cloud_sender env) (newCloudAwareForwarder pool) jobs)))) \<and>
   log_ok (snd (runSendLoop (cloud_sender env) (newCloudAwareForwarder pool) jobs))"
proof (intro conjI)
  let ?f = "newCloudAwareForwarder pool"
  have f: "cf_pool ?f = pool" "cf_transmitted ?f = []" by (simp_all add: newCloudAwareForwarder_def)
  show "cf_pool (fst (runSendLoop (cloud_sender env) ?f jobs)) = fst (runSendLoop (local_sender dur) pool jobs)"
    using cloud_snd.loop_feeds[of env ?f jobs] local_snd.loop_feeds[of dur pool jobs] by (simp only: f)
  show "\<exists>sel. subseq sel jobs \<and>
      list_all2 cloud_copy sel (cf_transmitted (fst (runSendLoop (cloud_sender env) ?f jobs)))"
    using cloud_loop_transmitted[of env ?f jobs] by (auto simp: f)
  show "log_ok (snd (runSendLoop (cloud_sender env) ?f jobs))" by (rule cloud_snd.loop_log)
qed

text \<open>C35: What the counters say of a message, increments and additions together: it counts as one
  inbound message, and if it is accepted as one processed event and no drop. A message that is
  neither accepted nor metadata raises the counter of drops by one when the collector's sender is
  the local one, but by two when it is the cloud-capable one, which counts the drop the handler has
  already counted once more.\<close>

theorem message_counters:
  "(let local_log = snd (OnMessage (Some (collector_sink (Some (local_sender dur)) d)) now lat topic payload s);
        cloud_log = snd (OnMessage (Some (collector_sink (Some (cloud_sender env)) d)) now lat topic payload s');
        processed = (case accepted_event now topic payload of Some e \<Rightarrow> 1 | None \<Rightarrow> 0);
        rejected = (case accepted_event now topic payload of
          Some e \<Rightarrow> 0 | None \<Rightarrow> if isMetaTopic topic then 0 else 1)
    in counter_total MQTTInboundMessages local_log = 1 \<and> counter_total MQTTInboundMessages cloud_log = 1 \<and>
       counter_total EventsProcessed local_log = processed \<and>
       counter_total EventsProcessed cloud_log = processed \<and>
       counter_total EventsDropped local_log = rejected \<and>
       counter_total EventsDropped cloud_log = 2 * rejected)"
  unfolding Let_def
  by (simp add: local_sink.message_counts cloud_sink.message_counts split: option.split)

text \<open>C21: However \<open>run\<close> ends, everything it started is stopped afterwards: the metrics server, the entropy
  server, the collector, the MQTT client, a client attached to the forwarder by \<open>run\<close>, and the
  connector, whose context is cancelled last of all. Two exceptions remain. A metrics server that
  fails to start or to serve ends the process with exit code 1 at any moment, and what was started
  by then is not stopped. And a client that the connector attaches is closed
  with the forwarder unless it is attached only after that.\<close>

theorem everything_started_is_stopped:
  "(if EvFatal \<in> set (snd (gw_process inp k))
    then metrics_failed inp \<and> fst (gw_process inp k) = 1 \<and>
      snd (gw_process inp k) = take k (snd (gw_run inp)) @ [EvFatal]
    else gw_process inp k = gw_run inp \<and>
      (\<forall>tls. answered (EvMetricsStart tls) EvMetricsShutdown (snd (gw_process inp k))) \<and>
      (\<forall>a tls. answered (EvEntropyStart a tls) EvEntropyShutdown (snd (gw_process inp k))) \<and>
      answered EvForwarderAttached EvForwarderClose (snd (gw_process inp k)) \<and>
      answered EvConnectorStart EvForwarderClose (snd (gw_process inp k)) \<and>
      answered EvConnectorStart EvCancelRoot (snd (gw_process inp k)) \<and>
      (answered EvConnectorAttached EvForwarderClose (snd (gw_process inp k)) \<or>
        before EvForwarderClose EvConnectorAttached (snd (gw_process inp k))) \<and>
      answered EvCollectorStart EvCollectorClose (snd (gw_process inp k)) \<and>
      answered EvMQTTConnected EvMQTTClose (snd (gw_process inp k)))"
proof (cases "EvFatal \<in> set (snd (gw_process inp k))")
  case True
  with gw_run_not_fatal[of inp] show ?thesis
    by (auto simp: gw_process_def case_prod_beta split: if_splits)
next
  case False
  then have "gw_process inp k = gw_run inp"
    by (auto simp: gw_process_def case_prod_beta split: if_splits)
  with False gw_run_shutdown[of inp "fst (gw_run inp)" "snd (gw_run inp)"]
    gw_run_connector[of inp "fst (gw_run inp)" "snd (gw_run inp)"] show ?thesis by simp
qed

text \<open>The order of a regular shutdown loses no event: the source of events is closed before the
  collector, the collector before the entropy server, and that before the metrics server; such a
  run exits with code 0.\<close>

theorem shutdown_order:
  assumes "gw_run inp = (code, evs)" and "EvMQTTConnected \<in> set evs"
  shows "code = 0 \<and> before EvMQTTConnected EvCollectorClose evs \<and> before EvMQTTClose EvCollectorClose evs \<and>
    before EvCollectorClose EvEntropyShutdown evs \<and> before EvEntropyShutdown EvMetricsShutdown evs"
  using assms by (rule gw_run_order)

definition production_run :: run_input where
  "production_run =
     \<lparr>in_flags = FlagsOk, in_config = Load production_env (\<lambda>_. None), in_now = 0,
      in_certs = (\<lambda>_. True), in_listen = (\<lambda>_. True), in_lookup = (\<lambda>_. False),
      in_serve = (\<lambda>_ _. Some ServerClosed), in_grpc = True, in_attach = None, in_mqtt = True\<rparr>"

definition production_tls :: tls_config where
  "production_tls =
     \<lparr>tls_CertFile = ''/c'', tls_KeyFile = ''/k'', tls_CAFile = [], tls_ClientAuth = NoClientCert\<rparr>"

lemma production_run_events:
  "snd (gw_run production_run) =
     [EvMetricsStart None, EvEntropyStart ''127.0.0.1:9797'' (Some production_tls), EvCollectorStart,
      EvMQTTConnected, EvSignal, EvMQTTClose, EvCollectorClose, EvEntropyShutdown, EvMetricsShutdown,
      EvMQTTClose, EvCollectorClose, EvEntropyShutdown, EvMetricsShutdown, EvCancelRoot]"
  by code_simp

theorem shutdown_order_witness:
  "before EvMQTTClose EvCollectorClose (snd (gw_run production_run)) \<and> fst (gw_run production_run) = 0"
proof -
  have r: "gw_run production_run = (fst (gw_run production_run), snd (gw_run production_run))" by simp
  have "EvMQTTConnected \<in> set (snd (gw_run production_run))" by (simp add: production_run_events)
  from shutdown_order[OF r this] show ?thesis by blast
qed

text \<open>C20: What is exposed to the network follows from the environment: an accepted configuration without
  public access starts the entropy server on the loopback interface only, and one of a production
  environment with public access starts it with TLS, with certificates that loaded.\<close>

theorem entropy_server_exposure:
  assumes "gw_process inp k = (code, evs)" and "EvEntropyStart a tls \<in> set evs"
    and "in_config inp = Load env read_file" and "Load env read_file = Inr config"
  shows "(AllowPublic (cfg_EntropyPool config) \<or>
      (\<exists>host port. SplitHostPort a = Inr (host, port) \<and> loopback_host host)) \<and>
    (\<not> (AllowPublic (cfg_EntropyPool config) \<and> IsProduction config) \<or>
      (\<exists>t. tls = Some t \<and> in_certs inp t \<and> tls_CertFile t \<noteq> [] \<and> tls_KeyFile t \<noteq> []))"
proof -
  have c: "in_config inp = Inr config" using assms(3,4) by simp
  have r: "gw_run inp = (fst (gw_run inp), snd (gw_run inp))" by simp
  have e: "EvEntropyStart a tls \<in> set (snd (gw_run inp))"
    using gw_process_events[of inp k] assms(1,2) by auto
  have "config_valid config" using Load_valid[OF assms(4)] by simp
  then have "AllowPublic (cfg_EntropyPool config) \<and> IsProduction config \<longrightarrow>
      Pool_TLSEnabled (cfg_EntropyPool config) \<and>
      Pool_TLSCertFile (cfg_EntropyPool config) \<noteq> [] \<and> Pool_TLSKeyFile (cfg_EntropyPool config) \<noteq> []"
    unfolding config_valid_def Let_def tls_valid_def by blast
  then have "\<not> (AllowPublic (cfg_EntropyPool config) \<and> IsProduction config) \<or>
      (\<exists>t. tls = Some t \<and> in_certs inp t \<and> tls_CertFile t \<noteq> [] \<and> tls_KeyFile t \<noteq> [])"
    using gw_run_tls[OF r e c] by metis
  with gw_run_loopback[OF r e c] show ?thesis by blast
qed

theorem entropy_server_exposure_witness:
  "\<exists>config. Load production_env (\<lambda>_. None) = Inr config \<and> AllowPublic (cfg_EntropyPool config) \<and>
     IsProduction config \<and>
     EvEntropyStart ''127.0.0.1:9797'' (Some production_tls) \<in> set (snd (gw_process production_run 0))"
proof -
  obtain config where c: "Load production_env (\<lambda>_. None) = Inr config" "AllowPublic (cfg_EntropyPool config)"
    "cfg_Environment config = ''prod''"
    using production_env_loads by (auto split: sum.splits)
  have "gw_process production_run 0 = gw_run production_run"
    unfolding gw_process_def by (simp only: case_prod_beta less_irrefl simp_thms if_False prod.collapse)
  then have e: "EvEntropyStart ''127.0.0.1:9797'' (Some production_tls) \<in> set (snd (gw_process production_run 0))"
    by (simp only: production_run_events list.set insert_iff simp_thms)
  have "in_config production_run = Load production_env (\<lambda>_. None)" by (simp add: production_run_def)
  note in_config = this
  have r: "gw_process production_run 0 = (fst (gw_process production_run 0), snd (gw_process production_run 0))"
    by (rule prod.collapse[symmetric])
  have "IsProduction config" using c(3) by (simp add: IsProduction_def EnvironmentProduction_def)
  with entropy_server_exposure[OF r e in_config c(1)] c(1,2) e
  show ?thesis by (intro exI[of _ config]) (simp only: simp_thms)
qed

text \<open>C31: The waits between connection attempts to the broker: there is one wait after every failed
  attempt, and \<open>waits ! k\<close>, the wait between failure \<open>k + 1\<close> and the next attempt, is \<open>min 30 (2 ^ k)\<close>
  seconds (1, 2, 4, 8, 16, then 30), up to a random change of less than 21 percent.\<close>

theorem mqtt_retry_waits:
  assumes "connectMQTTWithRetry (map (\<lambda>r. (None, r)) rs @ (Some client, r0) # rest) = (res, waits)"
    and "k < length rs" and "list_all (\<lambda>r. 0 \<le> r \<and> r \<le> 1) rs"
  shows "res = Some client \<and> length waits = length rs \<and>
    of_int (waits ! k) \<le> of_int (min 30 (2 ^ k) * second) * 121 / (100 :: rat) \<and>
    of_int (min 30 (2 ^ k) * second) * 79 / 100 \<le> of_int (waits ! k) + (1 :: rat)"
proof -
  have eq: "res = Some client"
    "waits = map (\<lambda>(k, r). jittered_wait ((next_delay mqtt_maxDelay ^^ k) mqtt_initialDelay) r) (enumerate 0 rs)"
    using assms(1) unfolding connectMQTTWithRetry_def connect_retry_success by auto
  have "(next_delay mqtt_maxDelay ^^ k) mqtt_initialDelay = min mqtt_maxDelay (mqtt_initialDelay * 2 ^ k)"
    by (rule next_delay_iter) (simp_all add: mqtt_maxDelay_def mqtt_initialDelay_def second_def max_int64_def)
  also have "\<dots> = min 30 (2 ^ k) * second"
    by (simp add: mqtt_maxDelay_def mqtt_initialDelay_def min_mult_distrib_right second_def mult.commute)
  finally have d: "(next_delay mqtt_maxDelay ^^ k) mqtt_initialDelay = min 30 (2 ^ k) * second" .
  have w: "waits ! k = jittered_wait (min 30 (2 ^ k) * second) (rs ! k)"
    using assms(2) by (simp add: eq(2) nth_enumerate_eq d)
  have r: "0 \<le> rs ! k" "rs ! k \<le> 1" using assms(2,3) by (auto simp: list_all_length)
  have "0 \<le> min 30 ((2 :: int) ^ k) * second" by (simp add: second_def)
  moreover have "min 30 ((2 :: int) ^ k) * second \<le> 30 * second"
    by (intro mult_right_mono) (simp_all add: second_def)
  then have "min 30 ((2 :: int) ^ k) * second \<le> 2 ^ 52" by (simp add: second_def)
  ultimately have "of_int (waits ! k) \<le> of_int (min 30 (2 ^ k) * second) * 121 / (100 :: rat) \<and>
      of_int (min 30 (2 ^ k) * second) * 79 / 100 \<le> of_int (waits ! k) + (1 :: rat)"
    unfolding w using r by (rule jittered_wait_bounds)
  moreover have "length waits = length rs" by (simp add: eq(2))
  ultimately show ?thesis using eq(1) by blast
qed

theorem mqtt_retry_waits_witness:
  "length (snd (connectMQTTWithRetry (map (\<lambda>r. (None, r)) [0, 1 / 2] @ (Some (), 0) # []))) = 2 \<and>
   of_int (snd (connectMQTTWithRetry (map (\<lambda>r. (None, r)) [0, 1 / 2] @ (Some (), 0) # [])) ! 1) \<le>
     of_int (2 * second) * 121 / (100 :: rat)"
proof -
  let ?c = "connectMQTTWithRetry (map (\<lambda>r. (None, r)) [0, 1 / 2] @ (Some (), 0) # [])"
  have "?c = (fst ?c, snd ?c)" by simp
  from mqtt_retry_waits[OF this, of 1] show ?thesis by simp
qed

text \<open>The interval at which the collector flushes is a whole number of seconds, rounded down: for every
  batch size it is the size divided by 184, and it is at least ten seconds for every size that a
  configuration can hold.\<close>

theorem flush_interval_whole_seconds:
  assumes "1840 \<le> batchSize" and "batchSize \<le> 184000"
  shows "flush_interval batchSize = batchSize div 184 * second \<and> 10 * second \<le> flush_interval batchSize"
proof -
  define q where "q = batchSize div 184"
  define r where "r = batchSize mod 184"
  have b: "batchSize = 184 * q + r" "0 \<le> r" "r \<le> 183" by (simp_all add: q_def r_def)
  have q: "10 \<le> q" "q \<le> 1000" using assms b by linarith+
  define x where "x = (of_int batchSize / 184 :: rat)"
  have "float64_of_int batchSize = of_int batchSize" using assms by (intro float64_of_int_exact) simp
  then have fx: "float64_of_int batchSize / 184 = x" by (simp add: x_def)
  have xq: "x = of_int q + of_int r / 184" unfolding x_def b(1) by (simp add: add_divide_distrib)
  have "of_int r / 184 \<le> (183 / 184 :: rat)" using b(3) by (simp add: divide_right_mono)
  moreover have "0 \<le> (of_int r / 184 :: rat)" using b(2) by simp
  moreover have "(of_int q :: rat) \<le> 1000" "10 \<le> (of_int q :: rat)" using q by linarith+
  ultimately have x: "of_int q \<le> x" "x \<le> of_int q + 183 / 184" "x \<le> 1001" "0 \<le> x"
    unfolding xq by linarith+
  have "round64 (of_int q) = of_int q" using q by (intro f64.rnd_int) simp
  then have low: "of_int q \<le> round64 x" using f64.rnd_mono[OF x(1)] by simp
  have "x / 2 ^ 53 \<le> 1001 / 2 ^ 53" using x(3) by (intro divide_right_mono) simp_all
  also have "(1001 / 2 ^ 53 :: rat) < 1 / 184" by simp
  finally have "round64 x < of_int q + 1" using f64.rnd_le[OF x(4)] x(2) by linarith
  with low have "\<lfloor>round64 x\<rfloor> = q" by (simp add: floor_eq_iff)
  moreover have "\<not> round64 x < 0" using low q by linarith
  ultimately have "trunc_float (round64 x) = q" by (simp add: trunc_float_def)
  moreover have "wrap_int (q * second) = q * second" using q by (intro seconds_in_range) simp_all
  ultimately have "flush_interval batchSize = q * second" by (simp add: flush_interval_def fx)
  moreover have "10 * second \<le> q * second" using q(1) by (intro mult_right_mono) (simp_all add: second_def)
  ultimately show ?thesis by (simp add: q_def)
qed

theorem flush_interval_whole_seconds_witness:
  "flush_interval 2000 = 10 * second"
  using flush_interval_whole_seconds[of 2000] by simp

end
