(* ===== verification/Pipeline.thy ===== *)
theory Pipeline
  imports Gateway
begin

text \<open>
  The gateway as a whole, from messages to entropy: the steps of \<^verbatim>\<open>RxHandler.OnMessage\<close> on the
  collector that \<^verbatim>\<open>setupMQTT\<close> hands to it, interleaved with the other steps of the collector
  (\<open>gateway_run\<close>), and together with them the calls of \<^verbatim>\<open>SendBatch\<close> on the sender of
  \<^verbatim>\<open>setupBatchCollector\<close> and the extractions from its pool (\<open>node_run\<close>). The lemmas show
  that the handler's steps are steps of the collector, so what is proved of the collector holds of
  the messages, and that the pool sees exactly the batches of the send loop.
\<close>

subsection \<open>Messages as steps\<close>

record message =
  msg_flushDuration :: int
  msg_now :: int
  msg_latency :: int
  msg_topic :: string
  msg_payload :: string

datatype gateway_label = Message message | Internal label

definition deliver_message :: "'f BatchSender \<Rightarrow> 'f \<Rightarrow> message \<Rightarrow> system \<Rightarrow> system" where
  "deliver_message sender f m s =
     fst (fst (OnMessage (Some (collector_sink (Some sender) (msg_flushDuration m)))
       (msg_now m) (msg_latency m) (msg_topic m) (msg_payload m) (s, f)))"

text \<open>
  The library calls the handler for one message after another; \<open>Add\<close> takes the collector's mutex, so
  a message takes its step when the mutex is free. Dropped events do not touch the collector, and
  the step does not depend on the sender's state \<open>f\<close>.
\<close>

inductive gateway_step :: "'f BatchSender \<Rightarrow> 'f \<Rightarrow> system \<Rightarrow> gateway_label \<Rightarrow> system \<Rightarrow> bool"
  for sender f where
  message: "\<not> sys_panicked s \<Longrightarrow> sys_lock s = None \<Longrightarrow>
    gateway_step sender f s (Message m) (deliver_message sender f m s)"
| internal: "cstep s l s' \<Longrightarrow> \<not> is_add l \<Longrightarrow> gateway_step sender f s (Internal l) s'"

inductive gateway_run :: "'f BatchSender \<Rightarrow> 'f \<Rightarrow> system \<Rightarrow> gateway_label list \<Rightarrow> system \<Rightarrow> bool"
  for sender f where
  run_Nil: "gateway_run sender f s [] s"
| run_snoc: "gateway_run sender f s ls s' \<Longrightarrow> gateway_step sender f s' l s'' \<Longrightarrow>
    gateway_run sender f s (ls @ [l]) s''"

inductive_cases gateway_stepE [elim]:
  "gateway_step sender f s (Message m) s'" "gateway_step sender f s (Internal l) s'"

definition message_event :: "message \<Rightarrow> TDCEvent option" where
  "message_event m = accepted_event (msg_now m) (msg_topic m) (msg_payload m)"

fun collector_labels :: "gateway_label list \<Rightarrow> label list" where
  "collector_labels [] = []"
| "collector_labels (Message m # ls) =
     (case message_event m of None \<Rightarrow> [] | Some e \<Rightarrow> [LAdd (msg_flushDuration m) e]) @ collector_labels ls"
| "collector_labels (Internal l # ls) = l # collector_labels ls"

fun message_events :: "gateway_label list \<Rightarrow> TDCEvent list" where
  "message_events [] = []"
| "message_events (Message m # ls) =
     (case message_event m of None \<Rightarrow> [] | Some e \<Rightarrow> [e]) @ message_events ls"
| "message_events (Internal l # ls) = message_events ls"

lemma collector_labels_append [simp]:
  "collector_labels (xs @ ys) = collector_labels xs @ collector_labels ys"
  by (induction xs rule: collector_labels.induct) simp_all

lemma message_events_append [simp]: "message_events (xs @ ys) = message_events xs @ message_events ys"
  by (induction xs rule: message_events.induct) simp_all

lemma deliver_message_eq:
  "deliver_message sender f m s =
     (case message_event m of
        None \<Rightarrow> s
      | Some e \<Rightarrow> fst (fst (coll_Add (collector_sink (Some sender) (msg_flushDuration m)) (s, f) e)))"
  by (auto simp: deliver_message_def message_event_def accepted_event_def OnMessage_def drop_event_def
      collector_sink_def BC_IncrementDropped_def Let_def case_prod_beta split: sum.split)

lemma gateway_step_crun:
  assumes "gateway_step sender f s l s'"
  shows "crun s (collector_labels [l]) s'"
proof (cases l)
  case (Message m)
  with assms have s': "\<not> sys_panicked s" "sys_lock s = None" "s' = deliver_message sender f m s" by auto
  show ?thesis
  proof (cases "message_event m")
    case None
    with Message s' show ?thesis by (simp add: deliver_message_eq crun_Nil)
  next
    case (Some e)
    with Message s' crun_single[OF collector_sink_add[OF s'(1,2)]] show ?thesis
      by (simp add: deliver_message_eq)
  qed
next
  case (Internal l')
  with assms show ?thesis by (auto intro: crun_single)
qed

lemma gateway_run_crun: "gateway_run sender f s ls s' \<Longrightarrow> crun s (collector_labels ls) s'"
proof (induction rule: gateway_run.induct)
  case (run_snoc s ls s' l s'')
  from run_snoc.IH gateway_step_crun[OF run_snoc.hyps(2)] show ?case
    by (simp only: collector_labels_append) (rule crun_append)
qed (simp add: crun_Nil)

text \<open>Only messages add events.\<close>

definition messages_only_add :: "gateway_label list \<Rightarrow> bool" where
  "messages_only_add ls =
     list_all (\<lambda>l. case l of Internal l' \<Rightarrow> \<not> is_add l' | Message _ \<Rightarrow> True) ls"

lemma gateway_run_only_adds: "gateway_run sender f s ls s' \<Longrightarrow> messages_only_add ls"
proof (induction rule: gateway_run.induct)
  case (run_snoc s ls s' l s'')
  then show ?case by (cases l) (auto simp: messages_only_add_def)
qed (simp add: messages_only_add_def)

lemma adds_not_add: "\<not> is_add l \<Longrightarrow> adds (l # ls) = adds ls"
  by (cases l) (auto simp: is_add_def)

lemma adds_messages: "messages_only_add ls \<Longrightarrow> adds (collector_labels ls) = message_events ls"
proof (induction ls rule: collector_labels.induct)
  case (2 m ls)
  then show ?case by (auto simp: messages_only_add_def split: option.split)
next
  case (3 l ls)
  then have "\<not> is_add l" by (simp add: messages_only_add_def)
  with 3 show ?case by (simp add: adds_not_add messages_only_add_def)
qed simp

lemma gateway_run_adds: "gateway_run sender f s ls s' \<Longrightarrow> adds (collector_labels ls) = message_events ls"
  by (rule adds_messages) (rule gateway_run_only_adds)

subsection \<open>Runs of the collector as runs of the gateway\<close>

text \<open>A message for the reading \<open>t\<close> of channel \<open>1\<close>, as a publisher prints it.\<close>

definition reading :: "u64 \<Rightarrow> message" where
  "reading t = \<lparr>msg_flushDuration = 0, msg_now = 0, msg_latency = 0,
     msg_topic = ''timestamps/channel'' @ CHR ''/'' # utoa 1, msg_payload = utoa (unat t)\<rparr>"

lemma reading_event: "t \<noteq> 0 \<Longrightarrow> message_event (reading t) = Some (tdc t)"
proof -
  assume t: "t \<noteq> 0"
  have small: "unat t < 2 ^ 64" using unsigned_less[of t] by simp
  have "parseRawTimestamp 0 (msg_topic (reading t)) (utoa (unat t)) = Inr (tdc t)"
    using parse_printed[OF small, of 0 "msg_topic (reading t)"] extractChannel_number[of 1 "''timestamps/channel''"]
    by (simp add: reading_def tdc_def nowMicrosSafe_def)
  then show ?thesis
    using digit_topic_not_meta[of "''timestamps/channel''" 1] t
    by (simp add: message_event_def accepted_event_def reading_def tdc_def)
qed

fun as_gateway :: "label \<Rightarrow> gateway_label" where
  "as_gateway (LAdd d e) = Message ((reading (TdcTimestampPs e))\<lparr>msg_flushDuration := d\<rparr>)"
| "as_gateway l = Internal l"

definition adds_readings :: "label list \<Rightarrow> bool" where
  "adds_readings ls = list_all (\<lambda>e. e = tdc (TdcTimestampPs e) \<and> TdcTimestampPs e \<noteq> 0) (adds ls)"

lemma as_gateway_event:
  "e = tdc (TdcTimestampPs e) \<Longrightarrow> TdcTimestampPs e \<noteq> 0 \<Longrightarrow>
     message_event ((reading (TdcTimestampPs e))\<lparr>msg_flushDuration := d\<rparr>) = Some e"
  using reading_event[of "TdcTimestampPs e"] by (simp add: message_event_def)

lemma cstep_gateway:
  assumes "cstep s l s'" and "adds_readings [l]"
  shows "gateway_step sender f s (as_gateway l) s'"
proof (cases "is_add l")
  case True
  then obtain d e where l: "l = LAdd d e" by (cases l) (auto simp: is_add_def)
  let ?m = "(reading (TdcTimestampPs e))\<lparr>msg_flushDuration := d\<rparr>"
  have e: "message_event ?m = Some e" using assms(2) by (intro as_gateway_event) (auto simp: l adds_readings_def)
  have free: "\<not> sys_panicked s" "sys_lock s = None" using assms(1) by (auto simp: l)
  have "cstep s l (deliver_message sender f ?m s)"
    using collector_sink_add[OF free, of d e "Some sender" f] by (simp add: l deliver_message_eq e)
  then have "deliver_message sender f ?m s = s'"
    using assms(1) by (metis exec_cstep option.inject)
  with gateway_step.message[OF free, of sender f ?m] show ?thesis by (simp add: l)
next
  case False
  then have "as_gateway l = Internal l" by (cases l) (auto simp: is_add_def)
  with internal[OF assms(1) False] show ?thesis by simp
qed

lemma crun_gateway:
  "crun s ls s' \<Longrightarrow> adds_readings ls \<Longrightarrow> gateway_run sender f s (map as_gateway ls) s'"
proof (induction rule: crun.induct)
  case (crun_snoc s ls s' l s'')
  then have r: "adds_readings ls" "adds_readings [l]" by (simp_all add: adds_readings_def adds_append)
  have "gateway_run sender f s (map as_gateway ls @ [as_gateway l]) s''"
    using crun_snoc.IH[OF r(1)] cstep_gateway[OF crun_snoc.hyps(2) r(2)] by (rule gateway_run.run_snoc)
  then show ?case by simp
qed (simp add: run_Nil)

subsection \<open>The collector, its sender and the pool\<close>

text \<open>
  The state of the running gateway around the pool: the collector, the state of the sender that
  \<open>setupBatchCollector\<close> gave it (which holds the pool), whether the send loop has passed the request
  it works on to \<open>SendBatch\<close>, and the bytes that extractions have released.
\<close>

record node =
  nd_sys :: system
  nd_sender :: sender_state
  nd_handed :: bool
  nd_released :: "byte list"

datatype node_label = NMessage message | NSend | NCollector label | NExtract int

text \<open>
  A step is a message for the handler, the call of \<open>SendBatch\<close> by the send loop, any other step of
  the collector (the send loop goes on with \<open>LSent\<close> when its call has returned), or an extraction by
  the entropy server. \<open>AddBatch\<close> and \<open>ExtractEntropy\<close> hold the pool's mutex, and what \<open>SendBatch\<close> does
  besides \<open>AddBatch\<close> does not concern the pool.
\<close>

inductive node_step :: "cloud_env \<Rightarrow> node \<Rightarrow> node_label \<Rightarrow> node \<Rightarrow> bool" for env where
  nd_message: "\<not> sys_panicked (nd_sys n) \<Longrightarrow> sys_lock (nd_sys n) = None \<Longrightarrow>
    OnMessage (Some (collector_sink (Some (setup_sender env)) (msg_flushDuration m)))
      (msg_now m) (msg_latency m) (msg_topic m) (msg_payload m) (nd_sys n, nd_sender n) = ((s', f'), ms) \<Longrightarrow>
    node_step env n (NMessage m) (n\<lparr>nd_sys := s', nd_sender := f'\<rparr>)"
| nd_send: "\<not> sys_panicked (nd_sys n) \<Longrightarrow> sys_worker (nd_sys n) = WorkerSending r \<Longrightarrow> \<not> nd_handed n \<Longrightarrow>
    bs_SendBatch (setup_sender env) (nd_sender n) (req_batch r) (req_seq r) = (f', failed, ms) \<Longrightarrow>
    node_step env n NSend (n\<lparr>nd_sender := f', nd_handed := True\<rparr>)"
| nd_collector: "cstep (nd_sys n) l s' \<Longrightarrow> \<not> is_add l \<Longrightarrow> l \<noteq> LSent \<or> nd_handed n \<Longrightarrow>
    node_step env n (NCollector l) (n\<lparr>nd_sys := s', nd_handed := nd_handed n \<and> l \<noteq> LSent\<rparr>)"
| nd_extract: "\<not> sys_panicked (nd_sys n) \<Longrightarrow>
    ExtractEntropy (sender_pool (nd_sender n)) k = (pool', out, ms) \<Longrightarrow>
    node_step env n (NExtract k)
      (n\<lparr>nd_sender := with_sender_pool (nd_sender n) pool',
         nd_released := nd_released n @ (case out of None \<Rightarrow> [] | Some bs \<Rightarrow> bs)\<rparr>)"

inductive_cases node_stepE [elim]:
  "node_step env n (NMessage m) n'" "node_step env n NSend n'" "node_step env n (NCollector l) n'"
  "node_step env n (NExtract k) n'"

inductive node_run :: "cloud_env \<Rightarrow> node \<Rightarrow> node_label list \<Rightarrow> node \<Rightarrow> bool" for env where
  node_Nil: "node_run env n [] n"
| node_snoc: "node_run env n ls n' \<Longrightarrow> node_step env n' l n'' \<Longrightarrow> node_run env n (ls @ [l]) n''"

definition start_node :: "Config \<Rightarrow> BatchCollector \<Rightarrow> WhitenedPool \<Rightarrow> node" where
  "start_node config bc pool =
     \<lparr>nd_sys = init_system bc, nd_sender = initial_sender config pool, nd_handed = False, nd_released = []\<rparr>"

text \<open>Seen without sender and pool, it is a run of the gateway.\<close>

fun gateway_labels :: "node_label list \<Rightarrow> gateway_label list" where
  "gateway_labels [] = []"
| "gateway_labels (NMessage m # ls) = Message m # gateway_labels ls"
| "gateway_labels (NCollector l # ls) = Internal l # gateway_labels ls"
| "gateway_labels (NSend # ls) = gateway_labels ls"
| "gateway_labels (NExtract k # ls) = gateway_labels ls"

lemma gateway_labels_append [simp]: "gateway_labels (xs @ ys) = gateway_labels xs @ gateway_labels ys"
  by (induction xs rule: gateway_labels.induct) simp_all

lemma node_step_gateway:
  assumes "node_step env n l n'" and "gateway_run (setup_sender env) f s ls (nd_sys n)"
  shows "gateway_run (setup_sender env) f s (ls @ gateway_labels [l]) (nd_sys n')"
  using assms(1)
proof cases
  case (nd_message m s' f' ms)
  then have "s' = deliver_message (setup_sender env) (nd_sender n) m (nd_sys n)"
    by (simp add: deliver_message_def)
  then have "s' = deliver_message (setup_sender env) f m (nd_sys n)"
    by (simp add: deliver_message_eq collector_sink_def case_prod_beta split: option.split)
  with nd_message run_snoc[OF assms(2) gateway_step.message] show ?thesis by simp
next
  case (nd_collector l' s')
  with run_snoc[OF assms(2) gateway_step.internal] show ?thesis by simp
qed (use assms(2) in simp_all)

lemma node_run_gateway:
  "node_run env n ls n' \<Longrightarrow> gateway_run (setup_sender env) f (nd_sys n) (gateway_labels ls) (nd_sys n')"
proof (induction rule: node_run.induct)
  case (node_snoc n ls n' l n'')
  from node_step_gateway[OF node_snoc.hyps(2) node_snoc.IH] show ?case by simp
qed (simp add: run_Nil)

subsection \<open>What reaches the pool\<close>

text \<open>
  The pool has seen a history of its own operations, in which the batches added are the requests
  the send loop has passed to \<open>SendBatch\<close>, in its order, and which has released the bytes released.
\<close>

definition handed_requests :: "node \<Rightarrow> sendRequest list" where
  "handed_requests n = sys_sent (nd_sys n) @ (if nd_handed n then worker_load (nd_sys n) else [])"

definition pool_saw :: "WhitenedPool \<Rightarrow> pool_op list \<Rightarrow> node \<Rightarrow> bool" where
  "pool_saw p ops n \<longleftrightarrow>
     added_batches ops = map req_batch (handed_requests n) \<and>
     sender_pool (nd_sender n) = fst (pool_run p ops) \<and> nd_released n = fst (snd (pool_run p ops)) \<and>
     (nd_handed n \<longrightarrow> (\<exists>r. sys_worker (nd_sys n) = WorkerSending r))"

lemma pool_run_snoc:
  "fst (pool_run p (ops @ [op])) = fst (pool_step (fst (pool_run p ops)) op)"
  "fst (snd (pool_run p (ops @ [op]))) =
     fst (snd (pool_run p ops)) @ fst (snd (pool_step (fst (pool_run p ops)) op))"
  by (induction ops arbitrary: p) (simp_all add: case_prod_beta)

lemma added_batches_append [simp]: "added_batches (xs @ ys) = added_batches xs @ added_batches ys"
  by (induction xs rule: added_batches.induct) simp_all

lemma cstep_sent_worker:
  assumes "cstep s l s'" and "l \<noteq> LSent"
  shows "sys_sent s' = sys_sent s"
    and "sys_worker s = WorkerSending r \<Longrightarrow> sys_worker s' = WorkerSending r"
  using assms by (auto elim: cstep.cases)

lemma message_keeps_sender:
  assumes "OnMessage (Some (collector_sink (Some (setup_sender env)) d)) now lat topic payload (s, f) = ((s', f'), ms)"
  shows "sender_pool f' = sender_pool f \<and> sys_sent s' = sys_sent s \<and> sys_worker s' = sys_worker s"
proof -
  have "(s', f') = fst (OnMessage (Some (collector_sink (Some (setup_sender env)) d)) now lat topic payload (s, f))"
    using assms by simp
  then show ?thesis
    by (auto simp: OnMessage_def drop_event_def Let_def case_prod_beta collector_sink_def
        BC_IncrementDropped_def setup_snd.dropped_pool split: sum.splits if_splits)
qed

lemma node_step_saw:
  assumes "node_step env n l n'" and "pool_saw p ops n"
  shows "\<exists>ops'. pool_saw p ops' n'"
  using assms(1)
proof cases
  case (nd_message m s' f' ms)
  from message_keeps_sender[OF nd_message(5)] assms(2) nd_message(2) have "pool_saw p ops n'"
    by (simp add: pool_saw_def handed_requests_def worker_load_def)
  then show ?thesis ..
next
  case (nd_send r f' failed ms)
  have "sender_pool f' = fst (AddBatch (sender_pool (nd_sender n)) (req_batch r))"
    using setup_snd.send_feeds[of env "nd_sender n" "req_batch r" "req_seq r"] nd_send(6) by simp
  with assms(2) nd_send have "pool_saw p (ops @ [PoolAdd (req_batch r)]) n'"
    by (simp add: pool_saw_def handed_requests_def worker_load_def pool_run_snoc case_prod_beta)
  then show ?thesis ..
next
  case (nd_collector l' s')
  have "pool_saw p ops n'"
  proof (cases "l' = LSent")
    case True
    with nd_collector assms(2) show ?thesis
      by (auto simp: pool_saw_def handed_requests_def worker_load_def)
  next
    case False
    with cstep_sent_worker[OF nd_collector(3) False] nd_collector assms(2) show ?thesis
      by (auto simp: pool_saw_def handed_requests_def worker_load_def)
  qed
  then show ?thesis ..
next
  case (nd_extract k pool' out ms)
  with assms(2) have "pool_saw p (ops @ [PoolExtract k]) n'"
    by (simp add: pool_saw_def handed_requests_def worker_load_def pool_run_snoc)
  then show ?thesis ..
qed

lemma node_run_saw: "node_run env n ls n' \<Longrightarrow> pool_saw p ops n \<Longrightarrow> \<exists>ops'. pool_saw p ops' n'"
proof (induction rule: node_run.induct)
  case (node_snoc n ls n' l n'')
  then show ?case using node_step_saw by blast
qed blast

lemma start_node_saw: "pool_saw p [] (start_node config bc p)"
  by (simp add: pool_saw_def handed_requests_def start_node_def init_system_def)

text \<open>When \<open>Close\<close> has returned because everything is sent, the pool has seen all of it.\<close>

lemma closed_node_saw:
  assumes "node_run env (start_node config bc p) (ls @ [NCollector LCloseDone]) n"
  shows "\<exists>ops. added_batches ops = map req_batch (sys_sent (nd_sys n)) \<and>
    sender_pool (nd_sender n) = fst (pool_run p ops) \<and> nd_released n = fst (snd (pool_run p ops))"
proof -
  obtain ops where ops: "pool_saw p ops n" using node_run_saw[OF assms start_node_saw] by blast
  obtain n' where "node_step env n' (NCollector LCloseDone) n"
    using assms by (cases rule: node_run.cases) auto
  then obtain s' where "cstep (nd_sys n') LCloseDone s'" "nd_sys n = s'" by cases auto
  then have "sys_worker (nd_sys n) = WorkerExited" by auto
  with ops show ?thesis by (auto simp: pool_saw_def handed_requests_def)
qed

subsection \<open>Runs of the collector as runs of the node\<close>

fun as_node :: "label \<Rightarrow> node_label list" where
  "as_node (LAdd d e) = [NMessage ((reading (TdcTimestampPs e))\<lparr>msg_flushDuration := d\<rparr>)]"
| "as_node LSent = [NSend, NCollector LSent]"
| "as_node l = [NCollector l]"

lemma gateway_labels_as_node [simp]: "gateway_labels (as_node l) = [as_gateway l]"
  by (cases l) simp_all

lemma node_run_append: "node_run env n xs n' \<Longrightarrow> node_run env n' ys n'' \<Longrightarrow> node_run env n (xs @ ys) n''"
  by (rotate_tac 1, induction rule: node_run.induct) (simp, metis append_assoc node_snoc)

lemma node_single: "node_step env n l n' \<Longrightarrow> node_run env n [l] n'"
  using node_snoc[OF node_Nil] by fastforce

lemma cstep_node:
  assumes "cstep (nd_sys n) l s'" and "adds_readings [l]" and "\<not> nd_handed n"
  shows "\<exists>n'. node_run env n (as_node l) n' \<and> nd_sys n' = s' \<and> \<not> nd_handed n'"
proof (cases "is_add l \<or> l = LSent")
  case False
  then have "as_node l = [NCollector l]" by (cases l) (auto simp: is_add_def)
  moreover have "node_step env n (NCollector l) (n\<lparr>nd_sys := s', nd_handed := nd_handed n \<and> l \<noteq> LSent\<rparr>)"
    using assms(1) False by (intro nd_collector) auto
  ultimately show ?thesis using assms(3) node_single by fastforce
next
  case True
  then consider d e where "l = LAdd d e" | "l = LSent" by (cases l) (auto simp: is_add_def)
  then show ?thesis
  proof cases
    case 1
    let ?m = "(reading (TdcTimestampPs e))\<lparr>msg_flushDuration := d\<rparr>"
    have "gateway_step (setup_sender env) (nd_sender n) (nd_sys n) (Message ?m) s'"
      using cstep_gateway[OF assms(1,2)] by (simp add: 1)
    then have g: "\<not> sys_panicked (nd_sys n)" "sys_lock (nd_sys n) = None"
      "s' = deliver_message (setup_sender env) (nd_sender n) ?m (nd_sys n)" by auto
    obtain f' ms where "OnMessage (Some (collector_sink (Some (setup_sender env)) (msg_flushDuration ?m)))
        (msg_now ?m) (msg_latency ?m) (msg_topic ?m) (msg_payload ?m) (nd_sys n, nd_sender n) = ((s', f'), ms)"
      unfolding g(3) deliver_message_def by (metis prod.collapse)
    from node_single[OF nd_message[OF g(1,2) this]] show ?thesis using assms(3) by (auto simp: 1)
  next
    case 2
    then obtain r where w: "\<not> sys_panicked (nd_sys n)" "sys_worker (nd_sys n) = WorkerSending r"
      using assms(1) by auto
    obtain f' failed ms where "bs_SendBatch (setup_sender env) (nd_sender n) (req_batch r) (req_seq r) = (f', failed, ms)"
      by (metis prod.collapse)
    note send = node_single[OF nd_send[OF w assms(3) this]]
    have "node_step env (n\<lparr>nd_sender := f', nd_handed := True\<rparr>) (NCollector LSent)
        ((n\<lparr>nd_sender := f', nd_handed := True\<rparr>)\<lparr>nd_sys := s',
          nd_handed := nd_handed (n\<lparr>nd_sender := f', nd_handed := True\<rparr>) \<and> LSent \<noteq> LSent\<rparr>)"
      using assms(1) by (intro nd_collector) (simp_all add: 2 is_add_def)
    from node_run_append[OF send node_single[OF this]] show ?thesis by (auto simp: 2)
  qed
qed

lemma crun_node:
  assumes "crun s ls s'" and "adds_readings ls" and "nd_sys n = s" and "\<not> nd_handed n"
  shows "\<exists>n'. node_run env n (concat (map as_node ls)) n' \<and> nd_sys n' = s' \<and> \<not> nd_handed n'"
  using assms
proof (induction arbitrary: rule: crun.induct)
  case (crun_Nil s)
  then show ?case using node_Nil by fastforce
next
  case (crun_snoc s ls s' l s'')
  then have r: "adds_readings ls" "adds_readings [l]" by (simp_all add: adds_readings_def adds_append)
  obtain n1 where n1: "node_run env n (concat (map as_node ls)) n1" "nd_sys n1 = s'" "\<not> nd_handed n1"
    using crun_snoc.IH r(1) crun_snoc.prems by blast
  obtain n2 where "node_run env n1 (as_node l) n2" "nd_sys n2 = s''" "\<not> nd_handed n2"
    using cstep_node[of n1 l s''] crun_snoc.hyps(2) r(2) n1(2,3) by blast
  with node_run_append[OF n1(1)] show ?case by fastforce
qed

lemma length_conditioned:
  "length (conditioned ops) = 32 * length (filter (\<lambda>b. b \<noteq> []) (added_batches ops))"
  by (induction ops rule: added_batches.induct) (simp_all add: length_batch_bytes)

end
