(* ===== verification/Metrics_Registry.thy ===== *)
theory Metrics_Registry
  imports Metrics
begin

text \<open>
  Registration of the metrics in \<^verbatim>\<open>internal/metrics/prometheus.go\<close>: the metric variables and the
  current registerer are package state, which \<open>init\<close>, \<open>SetRegisterer\<close> and \<open>ResetForTesting\<close> move from
  one registry to another. Registries belong to the Prometheus library: the record \<open>registry_lib\<close>
  holds the three operations used, \<open>registry_laws\<close> what its documentation promises of them. A
  collector is identified by a number, drawn when the factory creates it; the factory of the
  library panics when the registry refuses a collector, which is the result \<open>None\<close>.
\<close>

subsection \<open>The library\<close>

record 'r registry_lib =
  rl_register :: "'r \<Rightarrow> string \<Rightarrow> nat \<Rightarrow> 'r option"
  rl_unregister :: "'r \<Rightarrow> string \<Rightarrow> 'r"
  rl_lookup :: "'r \<Rightarrow> string \<Rightarrow> nat option"

text \<open>
  A registry refuses a second collector with the descriptor of a registered one, and unregisters
  whatever collector has the descriptor it is given; the gateway's descriptors are their names.
\<close>

definition registry_laws :: "'r registry_lib \<Rightarrow> bool" where
  "registry_laws lib \<longleftrightarrow>
     (\<forall>r n c. (rl_register lib r n c = None \<longleftrightarrow> rl_lookup lib r n \<noteq> None)) \<and>
     (\<forall>r n c r'. rl_register lib r n c = Some r' \<longrightarrow> rl_lookup lib r' = (rl_lookup lib r)(n \<mapsto> c)) \<and>
     (\<forall>r n. rl_lookup lib (rl_unregister lib r n) = (rl_lookup lib r)(n := None))"

subsection \<open>State and operations\<close>

record 'r metrics_state =
  mst_vars :: "metric \<Rightarrow> nat option"
  mst_current :: "nat option"
  mst_registries :: "nat \<Rightarrow> 'r"
  mst_created :: nat

definition metric_name :: "metric \<Rightarrow> string" where
  "metric_name m = (case map_of initializeMetrics m of Some (n, _) \<Rightarrow> n | None \<Rightarrow> [])"

text \<open>The factory of \<open>promauto\<close>: create the collector, then register it unless the registerer is nil.\<close>

definition new_metric ::
    "'r registry_lib \<Rightarrow> nat option \<Rightarrow> metric_desc \<Rightarrow> 'r metrics_state \<Rightarrow> 'r metrics_state option" where
  "new_metric lib registerer desc st =
     (case desc of
        (m, name, _) \<Rightarrow>
          let c = mst_created st;
              st1 = st\<lparr>mst_created := c + 1\<rparr>
          in case registerer of
               None \<Rightarrow> Some (st1\<lparr>mst_vars := (mst_vars st)(m \<mapsto> c)\<rparr>)
             | Some i \<Rightarrow>
                 (case rl_register lib (mst_registries st i) name c of
                    None \<Rightarrow> None
                  | Some r \<Rightarrow> Some (st1\<lparr>mst_registries := (mst_registries st)(i := r),
                                       mst_vars := (mst_vars st)(m \<mapsto> c)\<rparr>)))"

fun new_metrics ::
    "'r registry_lib \<Rightarrow> nat option \<Rightarrow> metric_desc list \<Rightarrow> 'r metrics_state \<Rightarrow> 'r metrics_state option" where
  "new_metrics lib registerer [] st = Some st"
| "new_metrics lib registerer (d # ds) st =
     (case new_metric lib registerer d st of None \<Rightarrow> None | Some st1 \<Rightarrow> new_metrics lib registerer ds st1)"

fun unregister_metrics ::
    "'r registry_lib \<Rightarrow> nat \<Rightarrow> metric list \<Rightarrow> 'r metrics_state \<Rightarrow> 'r metrics_state" where
  "unregister_metrics lib i [] st = st"
| "unregister_metrics lib i (m # ms) st =
     unregister_metrics lib i ms
       (if mst_vars st m \<noteq> None
        then st\<lparr>mst_registries := (mst_registries st)
               (i := rl_unregister lib (mst_registries st i) (metric_name m))\<rparr>
        else st)"

definition resetMetrics ::
    "'r registry_lib \<Rightarrow> nat option \<Rightarrow> 'r metrics_state \<Rightarrow> 'r metrics_state option" where
  "resetMetrics lib registerer st =
     (let st1 = (case mst_current st of
                   None \<Rightarrow> st | Some i \<Rightarrow> unregister_metrics lib i unregisterAll st);
          st2 = st1\<lparr>mst_current := registerer\<rparr>
      in new_metrics lib registerer initializeMetrics st2)"

definition SetRegisterer ::
    "'r registry_lib \<Rightarrow> nat option \<Rightarrow> 'r metrics_state \<Rightarrow> ('r metrics_state \<times> nat option) option" where
  "SetRegisterer lib registerer st =
     (let previous = mst_current st;
          st1 = (case mst_current st of
                   None \<Rightarrow> st | Some i \<Rightarrow> unregister_metrics lib i unregisterAll st);
          st2 = st1\<lparr>mst_current := registerer\<rparr>
      in case new_metrics lib registerer initializeMetrics st2 of
           None \<Rightarrow> None | Some st3 \<Rightarrow> Some (st3, previous))"

definition ResetForTesting ::
    "'r registry_lib \<Rightarrow> nat option \<Rightarrow> 'r metrics_state \<Rightarrow> 'r metrics_state option" where
  "ResetForTesting lib registerer st = resetMetrics lib registerer st"

text \<open>The package before and after its \<open>init\<close>, with the default registerer as number \<open>0\<close>.\<close>

definition unset_metrics :: "(nat \<Rightarrow> 'r) \<Rightarrow> 'r metrics_state" where
  "unset_metrics regs =
     \<lparr>mst_vars = (\<lambda>_. None), mst_current = Some 0, mst_registries = regs, mst_created = 0\<rparr>"

definition metrics_init :: "'r registry_lib \<Rightarrow> (nat \<Rightarrow> 'r) \<Rightarrow> 'r metrics_state option" where
  "metrics_init lib regs = resetMetrics lib (Some 0) (unset_metrics regs)"

datatype registry_op = OpSet "nat option" | OpReset "nat option"

fun registry_step :: "'r registry_lib \<Rightarrow> registry_op \<Rightarrow> 'r metrics_state \<Rightarrow> 'r metrics_state option" where
  "registry_step lib (OpSet r) st = map_option fst (SetRegisterer lib r st)"
| "registry_step lib (OpReset r) st = ResetForTesting lib r st"

fun registry_run :: "'r registry_lib \<Rightarrow> registry_op list \<Rightarrow> 'r metrics_state \<Rightarrow> 'r metrics_state option" where
  "registry_run lib [] st = Some st"
| "registry_run lib (op # ops) st =
     (case registry_step lib op st of None \<Rightarrow> None | Some st1 \<Rightarrow> registry_run lib ops st1)"

lemma SetRegisterer_reset:
  "map_option fst (SetRegisterer lib r st) = resetMetrics lib r st"
  "SetRegisterer lib r st = Some (st', previous) \<Longrightarrow> previous = mst_current st"
  by (auto simp: SetRegisterer_def resetMetrics_def Let_def split: option.splits)

lemma registry_step_reset:
  "registry_step lib op st = resetMetrics lib (case op of OpSet r \<Rightarrow> r | OpReset r \<Rightarrow> r) st"
  by (cases op) (simp_all add: SetRegisterer_reset(1) ResetForTesting_def)

subsection \<open>What a registry holds\<close>

definition held :: "'r registry_lib \<Rightarrow> 'r metrics_state \<Rightarrow> nat \<Rightarrow> string \<Rightarrow> nat option" where
  "held lib st i = rl_lookup lib (mst_registries st i)"

definition metric_names :: "string set" where
  "metric_names = set (map (fst \<circ> snd) initializeMetrics)"

lemma metric_name_simp: "(m, n, k) \<in> set initializeMetrics \<Longrightarrow> metric_name m = n"
  using map_of_is_SomeI[OF metrics_distinct] by (simp add: metric_name_def)

lemma all_metrics: "(\<exists>n k. (m, n, k) \<in> set initializeMetrics) \<and> m \<in> set unregisterAll"
  by (cases m) (auto simp: initializeMetrics_table unregisterAll_def)

lemma metric_name_in: "metric_name m \<in> metric_names"
  using all_metrics[of m] metric_name_simp unfolding metric_names_def by force

lemma metric_names_are: "metric_names = range metric_name"
  using metric_name_simp metric_name_in unfolding metric_names_def by force

lemma new_metric_held:
  assumes "registry_laws lib" and "\<And>i. registerer = Some i \<Longrightarrow> held lib st i name = None"
  shows "\<exists>st'. new_metric lib registerer (m, name, k) st = Some st' \<and>
    mst_vars st' = (mst_vars st)(m \<mapsto> mst_created st) \<and> mst_current st' = mst_current st \<and>
    mst_created st' = mst_created st + 1 \<and>
    (\<forall>i. held lib st' i = (if registerer = Some i then (held lib st i)(name \<mapsto> mst_created st) else held lib st i))"
proof (cases registerer)
  case None
  then show ?thesis by (simp add: new_metric_def held_def Let_def)
next
  case (Some i)
  with assms obtain r where r: "rl_register lib (mst_registries st i) name (mst_created st) = Some r"
    unfolding registry_laws_def held_def by (metis not_Some_eq)
  with assms(1) have "rl_lookup lib r = (rl_lookup lib (mst_registries st i))(name \<mapsto> mst_created st)"
    unfolding registry_laws_def by blast
  with r Some show ?thesis by (simp add: new_metric_def held_def Let_def)
qed

lemma new_metrics_held:
  assumes "registry_laws lib" and "distinct (map fst ds)" and "distinct (map (fst \<circ> snd) ds)"
    and "\<And>i n. registerer = Some i \<Longrightarrow> n \<in> set (map (fst \<circ> snd) ds) \<Longrightarrow> held lib st i n = None"
  shows "\<exists>st'. new_metrics lib registerer ds st = Some st' \<and> mst_current st' = mst_current st \<and>
    (\<forall>m. m \<notin> set (map fst ds) \<longrightarrow> mst_vars st' m = mst_vars st m) \<and>
    (\<forall>m n k. (m, n, k) \<in> set ds \<longrightarrow>
       mst_vars st' m \<noteq> None \<and> (\<forall>i. registerer = Some i \<longrightarrow> held lib st' i n = mst_vars st' m)) \<and>
    (\<forall>i n. registerer \<noteq> Some i \<or> n \<notin> set (map (fst \<circ> snd) ds) \<longrightarrow> held lib st' i n = held lib st i n)"
  using assms(2-4)
proof (induction ds arbitrary: st)
  case (Cons d ds)
  obtain m n k where d: "d = (m, n, k)" by (cases d)
  have "held lib st i n = None" if "registerer = Some i" for i
    using Cons.prems(3)[OF that] d by simp
  from new_metric_held[where registerer = registerer and st = st and m = m and k = k, OF assms(1) this]
  obtain st1 where st1: "new_metric lib registerer d st = Some st1"
    "mst_vars st1 = (mst_vars st)(m \<mapsto> mst_created st)" "mst_current st1 = mst_current st"
    "\<And>i. held lib st1 i = (if registerer = Some i then (held lib st i)(n \<mapsto> mst_created st) else held lib st i)"
    using d by blast
  have free: "held lib st1 i n' = None" if "registerer = Some i" "n' \<in> set (map (fst \<circ> snd) ds)" for i n'
    using Cons.prems(2) Cons.prems(3)[OF that(1)] that d by (auto simp: st1(4))
  have dist: "distinct (map fst ds)" "distinct (map (fst \<circ> snd) ds)" using Cons.prems(1,2) by (simp_all add: comp_def)
  from Cons.IH[OF dist free] obtain st2 where st2: "new_metrics lib registerer ds st1 = Some st2"
    "mst_current st2 = mst_current st1"
    "\<And>m'. m' \<notin> set (map fst ds) \<Longrightarrow> mst_vars st2 m' = mst_vars st1 m'"
    "\<And>m' n' k'. (m', n', k') \<in> set ds \<Longrightarrow>
       mst_vars st2 m' \<noteq> None \<and> (\<forall>i. registerer = Some i \<longrightarrow> held lib st2 i n' = mst_vars st2 m')"
    "\<And>i n'. registerer \<noteq> Some i \<or> n' \<notin> set (map (fst \<circ> snd) ds) \<Longrightarrow> held lib st2 i n' = held lib st1 i n'"
    by blast
  have new: "m \<notin> set (map fst ds)" "n \<notin> set (map (fst \<circ> snd) ds)" using Cons.prems(1,2) d by auto
  have head: "mst_vars st2 m = Some (mst_created st)"
    "registerer = Some i \<Longrightarrow> held lib st2 i n = Some (mst_created st)" for i
    using st2(3)[OF new(1)] st2(5)[of i n] new(2) by (simp_all add: st1(2,4))
  show ?case
  proof (intro exI[of _ st2] conjI allI impI)
    show "new_metrics lib registerer (d # ds) st = Some st2" using st1(1) st2(1) by simp
    show "mst_current st2 = mst_current st" using st1(3) st2(2) by simp
    fix m' assume "m' \<notin> set (map fst (d # ds))"
    then show "mst_vars st2 m' = mst_vars st m'" using st2(3)[of m'] st1(2) d by simp
  next
    fix m' n' k' assume "(m', n', k') \<in> set (d # ds)"
    then show "mst_vars st2 m' \<noteq> None" using head(1) st2(4)[of m' n' k'] d by auto
  next
    fix m' n' k' i assume "(m', n', k') \<in> set (d # ds)" "registerer = Some i"
    then show "held lib st2 i n' = mst_vars st2 m'" using head st2(4)[of m' n' k'] d by auto
  next
    fix i n' assume "registerer \<noteq> Some i \<or> n' \<notin> set (map (fst \<circ> snd) (d # ds))"
    then show "held lib st2 i n' = held lib st i n'" using st2(5)[of i n'] d by (auto simp: st1(4))
  qed
qed simp

lemma unregister_metrics_held:
  assumes "registry_laws lib"
  shows "mst_vars (unregister_metrics lib i ms st) = mst_vars st \<and>
    mst_current (unregister_metrics lib i ms st) = mst_current st \<and>
    held lib (unregister_metrics lib i ms st) j n =
      (if j = i \<and> (\<exists>m \<in> set ms. mst_vars st m \<noteq> None \<and> metric_name m = n) then None else held lib st j n)"
proof (induction ms arbitrary: st)
  case (Cons m ms)
  let ?st = "if mst_vars st m \<noteq> None
    then st\<lparr>mst_registries := (mst_registries st)
           (i := rl_unregister lib (mst_registries st i) (metric_name m))\<rparr> else st"
  have "rl_lookup lib (rl_unregister lib r n') = (rl_lookup lib r)(n' := None)" for r n'
    using assms unfolding registry_laws_def by blast
  then have "held lib ?st j n = (if j = i \<and> mst_vars st m \<noteq> None \<and> metric_name m = n then None else held lib st j n)"
    by (auto simp: held_def)
  moreover have "mst_vars ?st = mst_vars st" "mst_current ?st = mst_current st" by simp_all
  ultimately show ?case using Cons.IH[of ?st] by auto
qed simp

subsection \<open>Invariant\<close>

text \<open>Exactly the current registry holds the gateway's metrics, and it holds the collectors of the variables.\<close>

definition registry_invar :: "'r registry_lib \<Rightarrow> (nat \<Rightarrow> 'r) \<Rightarrow> 'r metrics_state \<Rightarrow> bool" where
  "registry_invar lib regs st \<longleftrightarrow>
     (\<forall>i m. held lib st i (metric_name m) = (if mst_current st = Some i then mst_vars st m else None)) \<and>
     (\<forall>i n. n \<notin> metric_names \<longrightarrow> held lib st i n = rl_lookup lib (regs i) n)"

lemma resetMetrics_invar:
  assumes "registry_laws lib" and "registry_invar lib regs st"
  shows "\<exists>st'. resetMetrics lib r st = Some st' \<and> registry_invar lib regs st' \<and>
    mst_current st' = r \<and> (\<forall>m. mst_vars st' m \<noteq> None)"
proof -
  define st1 where "st1 = (case mst_current st of
      None \<Rightarrow> st | Some i \<Rightarrow> unregister_metrics lib i unregisterAll st)\<lparr>mst_current := r\<rparr>"
  have inv: "held lib st i (metric_name m) = (if mst_current st = Some i then mst_vars st m else None)"
    "n \<notin> metric_names \<Longrightarrow> held lib st i n = rl_lookup lib (regs i) n" for i m n
    using assms(2) by (auto simp: registry_invar_def)
  have upd: "held lib (s\<lparr>mst_current := r\<rparr>) = held lib s" for s
    by (rule ext) (simp add: held_def)
  have cleared: "held lib st1 i (metric_name m) = None" for i m
    using inv(1)[of i m] all_metrics[of m] unregister_metrics_held[OF assms(1)]
    by (cases "mst_current st") (auto simp: st1_def upd)
  have others: "held lib st1 i n = rl_lookup lib (regs i) n" if "n \<notin> metric_names" for i n
    using inv(2)[OF that, of i] that metric_name_in unregister_metrics_held[OF assms(1)]
    by (cases "mst_current st") (auto simp: st1_def upd)
  have "held lib st1 i n = None" if "n \<in> set (map (fst \<circ> snd) initializeMetrics)" for i n
    using that cleared metric_names_are unfolding metric_names_def by auto
  then obtain st2 where st2: "new_metrics lib r initializeMetrics st1 = Some st2"
    "mst_current st2 = mst_current st1"
    "\<And>m n k. (m, n, k) \<in> set initializeMetrics \<Longrightarrow>
       mst_vars st2 m \<noteq> None \<and> (\<forall>i. r = Some i \<longrightarrow> held lib st2 i n = mst_vars st2 m)"
    "\<And>i n. r \<noteq> Some i \<or> n \<notin> metric_names \<Longrightarrow> held lib st2 i n = held lib st1 i n"
    using new_metrics_held[OF assms(1) metrics_distinct metric_names_distinct, of r st1]
    unfolding metric_names_def by metis
  have vars: "mst_vars st2 m \<noteq> None \<and> (\<forall>i. r = Some i \<longrightarrow> held lib st2 i (metric_name m) = mst_vars st2 m)" for m
    using all_metrics[of m] st2(3) metric_name_simp by metis
  have cur: "mst_current st2 = r" using st2(2) by (simp add: st1_def)
  have "registry_invar lib regs st2"
    unfolding registry_invar_def using vars st2(4) cleared others cur by auto
  with vars cur st2(1) show ?thesis by (auto simp: resetMetrics_def st1_def Let_def)
qed

lemma registry_run_invar:
  assumes "registry_laws lib" and "registry_invar lib regs st" and "\<forall>m. mst_vars st m \<noteq> None"
  shows "\<exists>st'. registry_run lib ops st = Some st' \<and> registry_invar lib regs st' \<and> (\<forall>m. mst_vars st' m \<noteq> None)"
  using assms(2,3)
proof (induction ops arbitrary: st)
  case (Cons op ops)
  from resetMetrics_invar[OF assms(1) Cons.prems(1), of "case op of OpSet r \<Rightarrow> r | OpReset r \<Rightarrow> r"]
  obtain st1 where "registry_step lib op st = Some st1" "registry_invar lib regs st1"
    "\<forall>m. mst_vars st1 m \<noteq> None"
    unfolding registry_step_reset by blast
  with Cons.IH show ?case by simp
qed simp

subsection \<open>Properties\<close>

text \<open>C34: Moving the metrics between registries never panics with a duplicate registration, whatever
  sequence of registerers, nil and repeated ones included, is set: all metric variables stay
  set, exactly the current registry holds the gateway's metrics, with the collectors of the
  variables, and what else the registries hold is untouched.\<close>

theorem metrics_registered_once:
  assumes "registry_laws lib" and "\<forall>i. \<forall>n \<in> metric_names. rl_lookup lib (regs i) n = None"
  shows "\<exists>st0 st. metrics_init lib regs = Some st0 \<and> registry_run lib ops st0 = Some st \<and>
    (\<forall>m. mst_vars st m \<noteq> None) \<and>
    (\<forall>i m. rl_lookup lib (mst_registries st i) (metric_name m) =
       (if mst_current st = Some i then mst_vars st m else None)) \<and>
    (\<forall>i n. n \<in> metric_names \<or> rl_lookup lib (mst_registries st i) n = rl_lookup lib (regs i) n)"
proof -
  have "registry_invar lib regs (unset_metrics regs)"
    using assms(2) metric_name_in by (auto simp: registry_invar_def unset_metrics_def held_def)
  from resetMetrics_invar[OF assms(1) this, of "Some 0"] obtain st0 where st0:
    "metrics_init lib regs = Some st0" "registry_invar lib regs st0" "\<forall>m. mst_vars st0 m \<noteq> None"
    unfolding metrics_init_def by blast
  from registry_run_invar[OF assms(1) st0(2,3), of ops] st0(1) show ?thesis
    unfolding registry_invar_def held_def by blast
qed

definition map_registry :: "(string \<Rightarrow> nat option) registry_lib" where
  "map_registry =
     \<lparr>rl_register = (\<lambda>r n c. case r n of None \<Rightarrow> Some (r(n \<mapsto> c)) | Some _ \<Rightarrow> None),
      rl_unregister = (\<lambda>r n. r(n := None)), rl_lookup = (\<lambda>r. r)\<rparr>"

theorem metrics_registered_once_witness:
  "\<exists>st0 st. metrics_init map_registry (\<lambda>_ _. None) = Some st0 \<and>
     registry_run map_registry [OpSet (Some 1), OpReset (Some 1), OpSet None, OpSet (Some 0)] st0 = Some st \<and>
     (\<forall>i m. mst_registries st i (metric_name m) = (if mst_current st = Some i then mst_vars st m else None))"
proof -
  have laws: "registry_laws map_registry"
    by (auto simp: registry_laws_def map_registry_def split: option.split)
  have lk: "rl_lookup map_registry r n = r n" for r n by (simp add: map_registry_def)
  have "\<forall>i. \<forall>n \<in> metric_names. rl_lookup map_registry ((\<lambda>_ _. None) i) n = None" by (simp add: lk)
  from metrics_registered_once[OF laws this, of "[OpSet (Some 1), OpReset (Some 1), OpSet None, OpSet (Some 0)]"]
  show ?thesis unfolding lk by blast
qed

end
