(* ===== verification/Fake_Clock.thy ===== *)
theory Fake_Clock
  imports Main
begin

text \<open>
  The fake clock of \<^verbatim>\<open>internal/clock/fake.go\<close>, on which the timers of the tests run. A channel with
  its buffer of one tick is a number with a content; a send on a full channel would block and is
  the result \<open>None\<close>. \<open>Fire\<close> sends after it has released its mutex, to channels that it has removed
  from the waiters, so it is one step. Times are nanoseconds.
\<close>

record FakeClock =
  fk_now :: int
  fk_waiters :: "nat list"
  fk_pending :: nat
  fk_created :: nat                  \<comment> \<open>channels made so far\<close>
  fk_buffer :: "nat \<Rightarrow> int option"   \<comment> \<open>the tick in a channel\<close>
  fk_sent :: "nat list"              \<comment> \<open>the channels sent to, in order\<close>

definition NewFakeClock :: FakeClock where
  "NewFakeClock =
     \<lparr>fk_now = 0, fk_waiters = [], fk_pending = 0, fk_created = 0, fk_buffer = (\<lambda>_. None), fk_sent = []\<rparr>"

definition send_tick :: "int \<Rightarrow> nat \<Rightarrow> FakeClock \<Rightarrow> FakeClock option" where
  "send_tick now ch f =
     (if fk_buffer f ch \<noteq> None then None
      else Some (f\<lparr>fk_buffer := (fk_buffer f)(ch \<mapsto> now), fk_sent := fk_sent f @ [ch]\<rparr>))"

fun send_ticks :: "int \<Rightarrow> nat list \<Rightarrow> FakeClock \<Rightarrow> FakeClock option" where
  "send_ticks now [] f = Some f"
| "send_ticks now (ch # chs) f =
     (case send_tick now ch f of None \<Rightarrow> None | Some f' \<Rightarrow> send_ticks now chs f')"

text \<open>The duration asked for is ignored, as in the code.\<close>

definition fake_After :: "FakeClock \<Rightarrow> (FakeClock \<times> nat) option" where
  "fake_After f =
     (let ch = fk_created f; f1 = f\<lparr>fk_created := ch + 1\<rparr>
      in if fk_pending f1 > 0 then
           (let f2 = f1\<lparr>fk_pending := fk_pending f1 - 1\<rparr>; now = fk_now f2
            in map_option (\<lambda>f3. (f3, ch)) (send_tick now ch f2))
         else Some (f1\<lparr>fk_waiters := fk_waiters f1 @ [ch]\<rparr>, ch))"

definition fake_Fire :: "FakeClock \<Rightarrow> FakeClock option" where
  "fake_Fire f =
     (if fk_waiters f = [] then Some (f\<lparr>fk_pending := fk_pending f + 1\<rparr>)
      else
        let waiters = fk_waiters f; now = fk_now f
        in send_ticks now waiters (f\<lparr>fk_waiters := []\<rparr>))"

definition fake_Advance :: "int \<Rightarrow> FakeClock \<Rightarrow> FakeClock" where
  "fake_Advance d f = f\<lparr>fk_now := fk_now f + d\<rparr>"

datatype fake_op = OpAfter | OpFire | OpAdvance int | OpReceive nat

text \<open>A receiver takes the tick out of its channel; without one it goes on waiting.\<close>

fun fake_step :: "FakeClock \<Rightarrow> fake_op \<Rightarrow> FakeClock option" where
  "fake_step f OpAfter = map_option fst (fake_After f)"
| "fake_step f OpFire = fake_Fire f"
| "fake_step f (OpAdvance d) = Some (fake_Advance d f)"
| "fake_step f (OpReceive ch) = Some (f\<lparr>fk_buffer := (fk_buffer f)(ch := None)\<rparr>)"

fun fake_run :: "FakeClock \<Rightarrow> fake_op list \<Rightarrow> FakeClock option" where
  "fake_run f [] = Some f"
| "fake_run f (op # ops) = (case fake_step f op of None \<Rightarrow> None | Some f' \<Rightarrow> fake_run f' ops)"

subsection \<open>Invariant\<close>

definition fake_invar :: "FakeClock \<Rightarrow> bool" where
  "fake_invar f \<longleftrightarrow>
     (fk_pending f = 0 \<or> fk_waiters f = []) \<and> distinct (fk_sent f @ fk_waiters f) \<and>
     set (fk_sent f @ fk_waiters f) = {..<fk_created f} \<and>
     (\<forall>ch. fk_buffer f ch \<noteq> None \<longrightarrow> ch \<in> set (fk_sent f))"

lemma send_ticks_fresh:
  assumes "distinct (fk_sent f @ chs)" and "\<forall>ch. fk_buffer f ch \<noteq> None \<longrightarrow> ch \<in> set (fk_sent f)"
  shows "\<exists>f'. send_ticks now chs f = Some f' \<and> fk_sent f' = fk_sent f @ chs \<and>
    fk_waiters f' = fk_waiters f \<and> fk_pending f' = fk_pending f \<and> fk_created f' = fk_created f \<and>
    (\<forall>ch. fk_buffer f' ch \<noteq> None \<longrightarrow> ch \<in> set (fk_sent f'))"
  using assms
proof (induction chs arbitrary: f)
  case (Cons ch chs)
  let ?f = "f\<lparr>fk_buffer := (fk_buffer f)(ch \<mapsto> now), fk_sent := fk_sent f @ [ch]\<rparr>"
  have "fk_buffer f ch = None" using Cons.prems by auto
  then have "send_tick now ch f = Some ?f" by (simp add: send_tick_def)
  with Cons.IH[of ?f] Cons.prems show ?case by auto
qed simp

text \<open>
  No operation blocks on a full channel, ticks that nobody waits for are kept, and every channel
  ever made is either waiting or has been sent exactly one tick.
\<close>

lemma fake_step_invar:
  assumes "fake_invar f"
  shows "\<exists>f'. fake_step f op = Some f' \<and> fake_invar f'"
proof (cases op)
  case OpAfter
  have new: "fk_created f \<notin> set (fk_sent f)" "fk_created f \<notin> set (fk_waiters f)" "fk_buffer f (fk_created f) = None"
    using assms by (auto simp: fake_invar_def)
  with assms OpAfter show ?thesis
    by (auto simp: fake_After_def send_tick_def fake_invar_def Let_def lessThan_Suc)
next
  case OpFire
  have "distinct (fk_sent (f\<lparr>fk_waiters := []\<rparr>) @ fk_waiters f)"
    "\<forall>ch. fk_buffer (f\<lparr>fk_waiters := []\<rparr>) ch \<noteq> None \<longrightarrow> ch \<in> set (fk_sent (f\<lparr>fk_waiters := []\<rparr>))"
    using assms by (simp_all add: fake_invar_def)
  from send_ticks_fresh[OF this, of "fk_now f"] assms OpFire show ?thesis
    by (auto simp: fake_Fire_def fake_invar_def)
qed (use assms in \<open>auto simp: fake_Advance_def fake_invar_def\<close>)

theorem fake_clock_never_blocks:
  "\<exists>f. fake_run NewFakeClock ops = Some f \<and> fake_invar f"
proof -
  have "\<exists>f'. fake_run f ops = Some f' \<and> fake_invar f'" if "fake_invar f" for f
    using that
  proof (induction ops arbitrary: f)
    case (Cons op ops)
    from fake_step_invar[OF Cons.prems, of op] Cons.IH show ?case by auto
  qed simp
  moreover have "fake_invar NewFakeClock" by (simp add: fake_invar_def NewFakeClock_def)
  ultimately show ?thesis by blast
qed

text \<open>Two ticks fired early go to the first two channels, and the third has to wait.\<close>

lemma pending_ticks_example:
  "map_option (\<lambda>f. (map (fk_buffer f) [0, 1, 2], fk_waiters f))
     (fake_run NewFakeClock [OpFire, OpFire, OpAdvance 5, OpAfter, OpAfter, OpAfter]) =
   Some ([Some 5, Some 5, None], [2])"
  by code_simp

end
