(* ===== verification/Sha256_Vector.thy ===== *)
theory Sha256_Vector
  imports Sha256
begin

text \<open>
  The digest of the test message \<open>abc\<close> of FIPS 180-4, evaluated in the kernel: a check that the
  constants and the round function of \<open>Sha256\<close> are transcribed correctly. The evaluation is cut
  into pieces of sixteen words of the schedule and sixteen rounds.
\<close>

lemma sha_expand_add: "sha_expand (m + n) ws = sha_expand n (sha_expand m ws)"
  by (induction m arbitrary: ws) simp_all

definition abc_schedule :: "u32 list" where
  "abc_schedule =
     [0x61626380, 0x0, 0x0, 0x0, 0x0, 0x0, 0x0, 0x0,
      0x0, 0x0, 0x0, 0x0, 0x0, 0x0, 0x0, 0x18,
      0x61626380, 0xf0000, 0x7da86405, 0x600003c6, 0x3e9d7b78, 0x183fc00, 0x12dcbfdb, 0xe2e2c38e,
      0xc8215c1a, 0xb73679a2, 0xe5bc3909, 0x32663c5b, 0x9d209d67, 0xec8726cb, 0x702138a4, 0xd3b7973b,
      0x93f5997f, 0x3b68ba73, 0xaff4ffc1, 0xf10a5c62, 0xa8b3996, 0x72af830a, 0x9409e33e, 0x24641522,
      0x9f47bf94, 0xf0a64f5a, 0x3e246a79, 0x27333ba3, 0xc4763f2, 0x840abf27, 0x7a290d5d, 0x65c43da,
      0xfb3e89cb, 0xcc7617db, 0xb9e66c34, 0xa9993667, 0x84badedd, 0xc21462bc, 0x1487472c, 0xb20f7a99,
      0xef57b9cd, 0xebe6b238, 0x9fe3095e, 0x78bc8d4b, 0xa43fcf15, 0x668b2ff8, 0xeeaba2cc, 0x12b1edeb]"

lemma abc_block:
  "windows 64 (sha_pad [0x61, 0x62, 0x63]) = [sha_pad [0x61, 0x62, 0x63]]"
  "rev (be_words (sha_pad [0x61, 0x62, 0x63])) = rev (take 16 abc_schedule)"
  by code_simp+

lemma abc_expand_16: "sha_expand 16 (rev (take 16 abc_schedule)) = rev (take 32 abc_schedule)"
  by code_simp

lemma abc_expand_32: "sha_expand 16 (rev (take 32 abc_schedule)) = rev (take 48 abc_schedule)"
  by code_simp

lemma abc_expand_48: "sha_expand 16 (rev (take 48 abc_schedule)) = rev (take 64 abc_schedule)"
  by code_simp

lemma abc_schedule: "sha_schedule (sha_pad [0x61, 0x62, 0x63]) = abc_schedule"
proof -
  have "sha_expand 48 ws = sha_expand 16 (sha_expand 16 (sha_expand 16 ws))" for ws
    using sha_expand_add[of 16 32 ws] sha_expand_add[of 16 16 "sha_expand 16 ws"] by simp
  moreover have "take 64 abc_schedule = abc_schedule" by (simp add: abc_schedule_def)
  ultimately show ?thesis
    using abc_expand_16 abc_expand_32 abc_expand_48 by (simp add: sha_schedule_def abc_block(2))
qed

definition abc_rounds :: "nat \<Rightarrow> (u32 \<times> u32) list" where
  "abc_rounds i = take 16 (drop (16 * i) (zip sha_K abc_schedule))"

lemma abc_rounds_0:
  "foldl sha_round
     [0x6a09e667, 0xbb67ae85, 0x3c6ef372, 0xa54ff53a, 0x510e527f, 0x9b05688c, 0x1f83d9ab, 0x5be0cd19] (abc_rounds 0) =
     [0xb0fa238e, 0xc0645fde, 0xd932eb16, 0x87912990, 0x7590dcd, 0xb92f20c, 0x745a48de, 0x1e578218]"
  by code_simp

lemma abc_rounds_1:
  "foldl sha_round
     [0xb0fa238e, 0xc0645fde, 0xd932eb16, 0x87912990, 0x7590dcd, 0xb92f20c, 0x745a48de, 0x1e578218] (abc_rounds 1) =
     [0x73b33bf5, 0xea992a22, 0xa0060b30, 0x363482c9, 0xba591112, 0x109ab3a, 0xade79437, 0x6112a3b7]"
  by code_simp

lemma abc_rounds_2:
  "foldl sha_round
     [0x73b33bf5, 0xea992a22, 0xa0060b30, 0x363482c9, 0xba591112, 0x109ab3a, 0xade79437, 0x6112a3b7] (abc_rounds 2) =
     [0x4172328d, 0xa14c14b0, 0x72ab4b91, 0x26628815, 0xfecf0bc6, 0xd57b94a9, 0xb7755da1, 0xa80f11f0]"
  by code_simp

lemma abc_rounds_3:
  "foldl sha_round
     [0x4172328d, 0xa14c14b0, 0x72ab4b91, 0x26628815, 0xfecf0bc6, 0xd57b94a9, 0xb7755da1, 0xa80f11f0] (abc_rounds 3) =
     [0x506e3058, 0xd39a2165, 0x4d24d6c, 0xb85e2ce9, 0x5ef50f24, 0xfb121210, 0x948d25b6, 0x961f4894]"
  by code_simp

lemma abc_rounds_all:
  "zip sha_K abc_schedule = abc_rounds 0 @ abc_rounds 1 @ abc_rounds 2 @ abc_rounds 3"
  by code_simp

lemma abc_digest:
  "concat (map be_bytes (map2 (+) sha_H0
     [0x506e3058, 0xd39a2165, 0x4d24d6c, 0xb85e2ce9, 0x5ef50f24, 0xfb121210, 0x948d25b6, 0x961f4894])) =
     [0xba, 0x78, 0x16, 0xbf, 0x8f, 0x1, 0xcf, 0xea,
      0x41, 0x41, 0x40, 0xde, 0x5d, 0xae, 0x22, 0x23,
      0xb0, 0x3, 0x61, 0xa3, 0x96, 0x17, 0x7a, 0x9c,
      0xb4, 0x10, 0xff, 0x61, 0xf2, 0x0, 0x15, 0xad]"
  by code_simp

lemma Sum256_abc:
  "Sum256 [0x61, 0x62, 0x63] =
     [0xba, 0x78, 0x16, 0xbf, 0x8f, 0x1, 0xcf, 0xea,
      0x41, 0x41, 0x40, 0xde, 0x5d, 0xae, 0x22, 0x23,
      0xb0, 0x3, 0x61, 0xa3, 0x96, 0x17, 0x7a, 0x9c,
      0xb4, 0x10, 0xff, 0x61, 0xf2, 0x0, 0x15, 0xad]"
proof -
  have "foldl sha_round sha_H0 (zip sha_K abc_schedule) =
     [0x506e3058, 0xd39a2165, 0x4d24d6c, 0xb85e2ce9, 0x5ef50f24, 0xfb121210, 0x948d25b6, 0x961f4894]"
    unfolding abc_rounds_all foldl_append sha_H0_def abc_rounds_0 abc_rounds_1 abc_rounds_2 abc_rounds_3 ..
  then show ?thesis using abc_digest by (simp add: Sum256_def abc_block(1) sha_compress_def abc_schedule)
qed

end
