(* ===== verification/Spec2Isabelle.thy ===== *)
theory Spec2Isabelle
  imports Pipeline Metrics_Registry Fake_Clock Sha256_Vector
begin

text \<open>
  The entropy TDC gateway turns the arrival times of detector events into entropy. This
  development models the Go program under \<^verbatim>\<open>src/\<close> and proves what makes it correct. All paths below
  are relative to \<^verbatim>\<open>src/\<close>.

  \<^bold>\<open>The program.\<close> An MQTT client (\<^verbatim>\<open>internal/mqtt/client.go\<close>) receives timestamps and hands every
  message to the handler (\<^verbatim>\<open>internal/mqtt/handler.go\<close>), which parses it into an event and adds it to
  the batch collector (\<^verbatim>\<open>internal/collector/collector.go\<close>). A send loop passes each batch to a sender
  of the assembly (\<^verbatim>\<open>cmd/entropy-tdc-gateway/main.go\<close>): it conditions the batch into the whitened
  pool (\<^verbatim>\<open>internal/entropy/pool.go\<close>, \<^verbatim>\<open>internal/entropy/whitening.go\<close>) and, with a cloud forwarder,
  copies it to a gRPC stream (\<^verbatim>\<open>internal/grpc/client.go\<close>). The entropy server
  (\<^verbatim>\<open>internal/entropy/http_entropy_server.go\<close>) releases bytes from the pool behind a rate limiter and
  the continuous health tests (\<^verbatim>\<open>internal/validation\<close>). Configuration comes from the environment
  (\<^verbatim>\<open>internal/config/config.go\<close>), and every part records metrics (\<^verbatim>\<open>internal/metrics\<close>).

  \<^bold>\<open>Theories.\<close>
  \<^item> \<open>Go_Prelude\<close>, \<open>Go_Strings\<close>, \<open>Go_Float\<close>, \<open>Go_Duration\<close>, \<open>Go_Net\<close>, \<open>Go_Http\<close>: what the code uses of
    the language and its standard library: 64-bit wrap-around and truncating division, string
    functions and number parsing, \<^verbatim>\<open>float64\<close> rounding to nearest even over the rationals, duration
    parsing, host-port splitting and IP addresses, responses, listeners, and the path cleaning and
    redirects of \<^verbatim>\<open>ServeMux\<close>.
  \<^item> \<open>Mqtt_Handler\<close>: \<open>OnMessage\<close>, over the interface \<open>Collector\<close> (locale \<open>event_sink\<close>).
  \<^item> \<open>Collector\<close>: \<open>Add\<close>, \<open>flush\<close>, \<open>autoFlush\<close>, \<open>Close\<close> and the send loop as the step relation \<open>cstep\<close> on
    \<open>system\<close> (the collector, who holds its mutex while a send waits, the queue, the places of the
    timer goroutine, of the send loop and of \<open>Close\<close>), with its executable form \<open>exec\<close>.
  \<^item> \<open>Sha256\<close>, \<open>Sha256_Vector\<close>, \<open>Whitening\<close>: the hash with a published test vector, the parity fold,
    Von Neumann extraction, conditioning and their statistics.
  \<^item> \<open>Health_Tests\<close>, \<open>Quick_Tests\<close>, \<open>Min_Entropy\<close>: repetition count and adaptive proportion tests,
    frequency and runs tests, and the two min-entropy estimators.
  \<^item> \<open>Pool\<close>: \<open>AddBatch\<close>, \<open>ExtractEntropy\<close> and status, over locales for the tests and the pool.
  \<^item> \<open>Token_Bucket\<close>, \<open>Http_Server\<close>, \<open>Entropy_Service\<close>: the limiter, the server with its handlers,
    start and shutdown, and the server under any sequence of batches and requests.
  \<^item> \<open>Mqtt_Client\<close>, \<open>Grpc_Client\<close>: the two clients; the goroutines of the second interleave as \<open>gstep\<close>.
  \<^item> \<open>Config\<close>: every environment parser, \<open>Load\<close> and \<open>validate\<close>.
  \<^item> \<open>Metrics\<close>, \<open>Metrics_Registry\<close>, \<open>Metrics_Server\<close>: the table of metrics and all recording functions
    as lists of calls, moving the metrics between registries, and the metrics endpoint.
  \<^item> \<open>Fake_Clock\<close>: the clock on which the tests of the repository run.
  \<^item> \<open>Gateway\<close>: the senders (locale \<open>batch_sender\<close>; \<open>setup_sender\<close> is the one that \<open>setupBatchCollector\<close>
    selects), protobuf events, retry loops, and \<open>run\<close> as the order of starts and stops, the
    cancellation of its root context included: \<open>gw_main\<close> is its own goroutine, \<open>gw_run\<close> adds the
    goroutine that connects the forwarder late, \<open>gw_process\<close> the one that serves the metrics.
  \<^item> \<open>Pipeline\<close>: \<open>gateway_run\<close> is handler and collector together, runs of messages and internal steps;
    \<open>node_run\<close> adds the sender's state with the pool, the calls of \<open>SendBatch\<close> and the extractions.
    This theory states what holds end to end.

  \<^bold>\<open>How code becomes definitions.\<close> A struct is a record, an error a value of a sum or option type,
  Go's \<^verbatim>\<open>int\<close> an \<open>int\<close> with \<open>wrap_int\<close> where it can overflow, fixed widths are words, and \<^verbatim>\<open>float64\<close> is
  a rational that is rounded after each operation. A method under a mutex is one transformer of
  its record; where goroutines interleave (collector, gRPC client) the state holds their program
  counters and one step is what runs between two points of blocking. An operation returns the
  metric calls it makes. Readings of clocks, random numbers, files, sockets and the answers
  of the MQTT, gRPC, TLS and Prometheus libraries are arguments; a theorem that needs a law of
  theirs has it as a hypothesis (\<open>registry_laws\<close>).

  \<^bold>\<open>What is shown.\<close>
  \<^item> End to end: accepted messages are exactly the events of the batches, in every interleaving once
    and in order (\<open>gateway_refines_collector\<close>); if none is accepted after the flush of \<open>Close\<close>, all are
    sent and conditioned into the pool when \<open>Close\<close> returns (\<open>messages_become_entropy\<close>), and nothing
    deadlocks or panics. An event added later is lost, and a batch filled later panics.
  \<^item> Entropy: released bytes are a subsequence of the conditioned hashes, so no byte is served twice
    to any client; the released stream passes both health tests; the incremental tests are equivalent
    to their definitions on whole streams.
  \<^item> HTTP: the outcome and accounting of every request, the bound on admitted requests with the rounding
    error of the bucket explicit, loopback or TLS exposure from the configuration to the socket.
  \<^item> Clients: reconnection under all interleavings in which no failure is reported while a reconnect
    loop is returning; without a rotation interval such a failure is shown to be lost. The back-off
    delays in closed form.
  \<^item> Configuration: everything accepted is complete and in range, and printed numbers are read back.
  \<^item> Metrics: every call fits its metric, no sequence of registerers registers one twice, and what a
    message adds to the counters (\<open>counter_total\<close> takes increments and additions together): a drop
    counts twice behind the cloud-capable sender. \<open>count_inc\<close> counts increments only and is used for
    metrics that are never added to.
  \<^item> Start and stop: everything \<open>run\<close> starts is stopped on every return, except when the metrics server
    fails and for a client that is attached only after the forwarder has been closed.

  \<^bold>\<open>Bounds and fuel.\<close> No definition takes fuel: loops over data are structural or have a measure, and
  unbounded waiting is a step that may or may not be taken. The retry loops take the list of
  outcomes of their attempts. Statements on \<^verbatim>\<open>float64\<close> name their range (for the bucket, bursts up to
  \<open>2 ^ 53\<close>); the bounds of the pool and the collector are those of the code.

  \<^bold>\<open>Not modelled.\<close> Log output, the dotenv file, embedded and generated files (the protobuf messages are
  records), the test helpers, contents of TLS handshakes, and memory effects such as slice
  capacity. \<open>math.Erfc\<close> and logarithms of the statistics are taken over the reals. Partial writes of
  a response and cancelled requests are the library's; of a redirect only the status is kept.
\<close>

section \<open>Properties of the whole gateway\<close>

text \<open>C2: The handler refines the collector: every run of the gateway, with any messages on any topics
  interleaved with the timer, the send loop and \<open>Close\<close> in any way, is a run of the collector in
  which the events added are exactly the events of the accepted messages, in their order; so the
  batches sent, queued and buffered hold each accepted message once and nothing else.\<close>

theorem gateway_refines_collector:
  assumes "NewBatchCollectorWithFlush m fi = Some bc"
    and "gateway_run sender f (init_system bc) ls s"
  shows "crun (init_system bc) (collector_labels ls) s \<and>
    concat (map req_batch (sys_sent s @ outstanding s)) @ bc_events (sys_bc s) = message_events ls"
proof -
  have r: "crun (init_system bc) (collector_labels ls) s" using assms(2) by (rule gateway_run_crun)
  moreover have "received_events (init_system bc) = []" using new_collector_inv[OF assms(1)] by blast
  ultimately have "received_events s = message_events ls"
    using crun_received[OF r] gateway_run_adds[OF assms(2)] by simp
  with r show ?thesis by (simp add: received_events_def stream_def)
qed

definition sample_sender :: "WhitenedPool BatchSender" where
  "sample_sender = local_sender (\<lambda>_. 0)"

lemma closing_gateway_run:
  "\<exists>s. gateway_run sample_sender (NewWhitenedPool 32) (init_system (collector_of_size 2))
       (map as_gateway (closing_run @ [LCloseDone])) s \<and>
     crun (init_system (collector_of_size 2)) (closing_run @ [LCloseDone]) s \<and>
     sys_sent s = [\<lparr>req_batch = [tdc 1, tdc 2], req_seq = 1\<rparr>, \<lparr>req_batch = [tdc 3], req_seq = 2\<rparr>] \<and>
     outstanding s = [] \<and> bc_events (sys_bc s) = []"
proof -
  obtain s where s: "exec_run (init_system (collector_of_size 2)) closing_run = Some s"
    "sys_sent s = [\<lparr>req_batch = [tdc 1, tdc 2], req_seq = 1\<rparr>, \<lparr>req_batch = [tdc 3], req_seq = 2\<rparr>]"
    "outstanding s = []" "bc_events (sys_bc s) = []"
    "exec s LCloseDone = Some (s\<lparr>sys_close := CloseReturned\<rparr>)"
    using closing_run_exec by blast
  let ?s = "s\<lparr>sys_close := CloseReturned\<rparr>"
  have r: "crun (init_system (collector_of_size 2)) (closing_run @ [LCloseDone]) ?s"
    by (rule crun_snoc[OF exec_run_crun[OF s(1)] s(5)[unfolded exec_cstep]])
  have "adds_readings (closing_run @ [LCloseDone])"
    by (simp add: adds_readings_def closing_run_def tdc_def)
  from crun_gateway[OF r this, of sample_sender "NewWhitenedPool 32"] r s show ?thesis
    by (intro exI[of _ ?s] conjI) (simp_all add: outstanding_def worker_load_def lock_load_def)
qed

lemma closing_messages: "message_events (map as_gateway (closing_run @ [LCloseDone])) = [tdc 1, tdc 2, tdc 3]"
proof -
  have "adds_readings (closing_run @ [LCloseDone])"
    by (simp add: adds_readings_def closing_run_def tdc_def)
  have e: "message_event ((reading (TdcTimestampPs (tdc t)))\<lparr>msg_flushDuration := 0\<rparr>) = Some (tdc t)"
    if "t \<noteq> 0" for t
    using that by (intro as_gateway_event) (simp_all add: tdc_def)
  show ?thesis by (simp add: closing_run_def e)
qed

theorem gateway_refines_collector_witness:
  "\<exists>s. gateway_run sample_sender (NewWhitenedPool 32) (init_system (collector_of_size 2))
       (map as_gateway (closing_run @ [LCloseDone])) s \<and>
     concat (map req_batch (sys_sent s @ outstanding s)) @ bc_events (sys_bc s) = [tdc 1, tdc 2, tdc 3]"
proof -
  obtain s where s: "gateway_run sample_sender (NewWhitenedPool 32) (init_system (collector_of_size 2))
      (map as_gateway (closing_run @ [LCloseDone])) s"
    using closing_gateway_run by blast
  have "NewBatchCollectorWithFlush 2 0 = Some (collector_of_size 2)" by (rule new_collector_of_size) simp
  from gateway_refines_collector[OF this s] s show ?thesis unfolding closing_messages by blast
qed

text \<open>C1: End to end, over any interleaving of messages, timer, send loop, \<open>Close\<close> and extractions, with
  the sender that the configuration selects and any behaviour of the cloud: when \<open>Close\<close> has returned
  because everything is sent, and no message was accepted after its flush (\<open>quiet\<close>), every accepted
  message has been sent and has reached the pool. The pool then holds the newest 4096 events, and the
  entropy released so far followed by the entropy stored is a subsequence of the 32-byte hashes of
  the sent batches in their order, so no byte is invented, reordered or released twice.\<close>

theorem messages_become_entropy:
  assumes "NewBatchCollectorWithFlush m fi = Some bc"
    and "node_run env (start_node config bc (NewWhitenedPoolWithBounds mn mx)) (ls @ [NCollector LCloseDone]) n"
    and "quiet (collector_labels (gateway_labels ls))"
  shows "concat (map req_batch (sys_sent (nd_sys n))) = message_events (gateway_labels ls) \<and>
    rawEvents (sender_pool (nd_sender n)) = keep_newest 4096 (message_events (gateway_labels ls)) \<and>
    subseq (nd_released n @ whitened (sender_pool (nd_sender n)))
      (concat (map (batch_bytes \<circ> req_batch) (sys_sent (nd_sys n))))"
proof -
  let ?p = "NewWhitenedPoolWithBounds mn mx" and ?gs = "gateway_labels ls"
  have g: "gateway_run (setup_sender env) f (init_system bc) (?gs @ [Internal LCloseDone]) (nd_sys n)" for f
    using node_run_gateway[OF assms(2), of f] by (simp add: start_node_def)
  have r: "crun (init_system bc) (collector_labels ?gs @ [LCloseDone]) (nd_sys n)"
    using gateway_run_crun[OF g] by simp
  have a: "adds (collector_labels ?gs) = message_events ?gs"
    using gateway_run_adds[OF g] by (simp add: adds_append)
  obtain ops where ops: "added_batches ops = map req_batch (sys_sent (nd_sys n))"
    "sender_pool (nd_sender n) = fst (pool_run ?p ops)" "nd_released n = fst (snd (pool_run ?p ops))"
    using closed_node_saw[OF assms(2)] by blast
  have "whitened ?p = []" by (simp add: NewWhitenedPoolWithBounds_def Let_def)
  then have "subseq (nd_released n @ whitened (sender_pool (nd_sender n))) (conditioned ops)"
    using pool_run_order[of ?p ops] by (simp add: ops)
  moreover have "conditioned ops = concat (map (batch_bytes \<circ> req_batch) (sys_sent (nd_sys n)))"
    by (simp add: conditioned_added ops(1))
  ultimately show ?thesis
    using close_done_delivers[OF assms(1) r assms(3)] closed_run_history[OF assms(1) r assms(3) ops(1), of mn mx] a
    by (auto simp: ops(2))
qed

theorem messages_become_entropy_witness:
  "\<forall>env config. \<exists>ls n. node_run env (start_node config (collector_of_size 2) (NewWhitenedPoolWithBounds 0 0))
       (ls @ [NCollector LCloseDone]) n \<and>
     concat (map req_batch (sys_sent (nd_sys n))) = [tdc 1, tdc 2, tdc 3] \<and>
     rawEvents (sender_pool (nd_sender n)) = [tdc 1, tdc 2, tdc 3]"
proof (intro allI)
  fix env config
  let ?start = "start_node config (collector_of_size 2) (NewWhitenedPoolWithBounds 0 0)"
  obtain s where s: "crun (init_system (collector_of_size 2)) (closing_run @ [LCloseDone]) s"
    using closing_gateway_run by blast
  have "adds_readings (closing_run @ [LCloseDone])"
    by (simp add: adds_readings_def closing_run_def tdc_def)
  then obtain n where n: "node_run env ?start (concat (map as_node (closing_run @ [LCloseDone]))) n"
    using crun_node[OF s, of ?start env] by (auto simp: start_node_def)
  let ?ls = "concat (map as_node closing_run)"
  have run: "node_run env ?start (?ls @ [NCollector LCloseDone]) n" using n by simp
  have new: "NewBatchCollectorWithFlush 2 0 = Some (collector_of_size 2)"
    by (rule new_collector_of_size) simp
  have g: "gateway_labels ?ls = map as_gateway closing_run"
    by (simp add: closing_run_def)
  have m: "message_events (map as_gateway closing_run) = [tdc 1, tdc 2, tdc 3]"
    using closing_messages by simp
  have e: "message_event ((reading (TdcTimestampPs (tdc t)))\<lparr>msg_flushDuration := 0\<rparr>) = Some (tdc t)"
    if "t \<noteq> 0" for t
    using that by (intro as_gateway_event) (simp_all add: tdc_def)
  have "collector_labels (map as_gateway closing_run) = closing_run" by (simp add: closing_run_def e)
  then have q: "quiet (collector_labels (gateway_labels ?ls))" unfolding g using quiet_closing_run by simp
  from messages_become_entropy[OF new run q] run
  show "\<exists>ls n. node_run env ?start (ls @ [NCollector LCloseDone]) n \<and>
     concat (map req_batch (sys_sent (nd_sys n))) = [tdc 1, tdc 2, tdc 3] \<and>
     rawEvents (sender_pool (nd_sender n)) = [tdc 1, tdc 2, tdc 3]"
    unfolding g m by (intro exI[of _ ?ls] exI[of _ n]) (simp add: keep_newest_id)
qed

text \<open>C33: Every metric call of the running gateway fits the metric it is made on, for all messages,
  batches, requests and network behaviours: the right number of label values, no counter
  decremented, no gauge or histogram used as a counter. So no recording panics, in the message
  handler, the send loops, the HTTP handlers, the two clients and the set-up.\<close>

theorem all_metric_calls_fit:
  "log_ok (snd (OnMessage (Some (collector_sink (Some (cloud_sender env)) d)) now lat topic payload s)) \<and>
   log_ok (snd (OnMessage (Some (collector_sink (Some (local_sender dur)) d)) now lat topic payload s')) \<and>
   log_ok (snd (runSendLoop (cloud_sender env) f jobs)) \<and>
   log_ok (snd (runSendLoop (local_sender dur) pool jobs)) \<and>
   log_ok (snd (snd (http_serve spec srv meanwhile rq))) \<and>
   log_ok (snd (connects mqtt outs) @ connectionLost @ mqtt_Close client isOpen @ snd (snd (mqtt_Connect client token timer))) \<and>
   log_ok (case grun c ls of None \<Rightarrow> [] | Some (_, ms) \<Rightarrow> ms) \<and>
   log_ok (snd (SetClient fwd cl) @ snd (snd (cf_Close fwd)) @ snd (setupBatchCollector config))"
  by (auto simp: cloud_sink.message_log local_sink.message_log cloud_snd.loop_log local_snd.loop_log
      http_serve_log connects_log mqtt_client_log SetClient_def cf_Close_def setupBatchCollector_def Let_def
      split: option.split dest: grun_log)

end
